theory Spec2Isabelle
  imports Complex_Main
begin

section \<open>Python and numpy values\<close>

text \<open>
  The numeric pipeline of \<^verbatim>\<open>blender_render.py\<close>: \<^verbatim>\<open>normalize_points\<close>,
  \<^verbatim>\<open>heatmap_grid\<close> and the grid iteration of \<^verbatim>\<open>heatmap_barplot\<close>.

  Python integers are \<^typ>\<open>int\<close>. A float64 is a value of \<open>fl\<close>: a real
  number, or one of the three non-finite values that numpy produces instead of raising
  (division by zero and invalid operations on numpy scalars and arrays only warn).
  The sign of zero is not modelled: a zero divisor counts as \<open>+0.0\<close>.
  The operations \<open>fadd\<close>, \<open>fsub\<close>, \<open>fmul\<close> and \<open>fdiv\<close> give the exact result on finite
  operands; \<open>add64\<close>, \<open>sub64\<close>, \<open>mul64\<close> and \<open>div64\<close> round it to float64.
  The arithmetic of \<^verbatim>\<open>normalize_points\<close> is the rounded one. In \<^verbatim>\<open>heatmap_grid\<close> and
  \<^verbatim>\<open>heatmap_barplot\<close> the products, quotients, sums and exponentials are the exact
  ones, not rounded.
  Exceptions are values of \<open>error\<close>, returned on the left of a sum.
\<close>

datatype error = ValueError | IndexError | ZeroDivisionError | OverflowError

datatype fl = Fin real | NaN | PInf | NInf

fun fneg :: "fl \<Rightarrow> fl" where
  "fneg (Fin a) = Fin (- a)"
| "fneg NaN = NaN"
| "fneg PInf = NInf"
| "fneg NInf = PInf"

fun fadd :: "fl \<Rightarrow> fl \<Rightarrow> fl" where
  "fadd (Fin a) (Fin b) = Fin (a + b)"
| "fadd NaN _ = NaN"
| "fadd _ NaN = NaN"
| "fadd PInf NInf = NaN"
| "fadd NInf PInf = NaN"
| "fadd PInf _ = PInf"
| "fadd _ PInf = PInf"
| "fadd NInf _ = NInf"
| "fadd _ NInf = NInf"

definition fsub :: "fl \<Rightarrow> fl \<Rightarrow> fl" where
  "fsub a b = fadd a (fneg b)"

fun fmul :: "fl \<Rightarrow> fl \<Rightarrow> fl" where
  "fmul (Fin a) (Fin b) = Fin (a * b)"
| "fmul NaN _ = NaN"
| "fmul _ NaN = NaN"
| "fmul (Fin a) PInf = (if a = 0 then NaN else if 0 < a then PInf else NInf)"
| "fmul (Fin a) NInf = (if a = 0 then NaN else if 0 < a then NInf else PInf)"
| "fmul PInf (Fin b) = (if b = 0 then NaN else if 0 < b then PInf else NInf)"
| "fmul NInf (Fin b) = (if b = 0 then NaN else if 0 < b then NInf else PInf)"
| "fmul PInf PInf = PInf"
| "fmul NInf NInf = PInf"
| "fmul PInf NInf = NInf"
| "fmul NInf PInf = NInf"

fun fdiv :: "fl \<Rightarrow> fl \<Rightarrow> fl" where
  "fdiv (Fin a) (Fin b) =
     (if b \<noteq> 0 then Fin (a / b)
      else if a = 0 then NaN else if 0 < a then PInf else NInf)"
| "fdiv NaN _ = NaN"
| "fdiv _ NaN = NaN"
| "fdiv (Fin a) PInf = Fin 0"
| "fdiv (Fin a) NInf = Fin 0"
| "fdiv PInf (Fin b) = (if 0 \<le> b then PInf else NInf)"
| "fdiv NInf (Fin b) = (if 0 \<le> b then NInf else PInf)"
| "fdiv PInf PInf = NaN"
| "fdiv PInf NInf = NaN"
| "fdiv NInf PInf = NaN"
| "fdiv NInf NInf = NaN"

fun fexp :: "fl \<Rightarrow> fl" where
  "fexp (Fin a) = Fin (exp a)"
| "fexp NaN = NaN"
| "fexp PInf = PInf"
| "fexp NInf = Fin 0"

fun flog :: "fl \<Rightarrow> fl" where
  "flog (Fin a) = (if 0 < a then Fin (ln a) else if a = 0 then NInf else NaN)"
| "flog NaN = NaN"
| "flog PInf = PInf"
| "flog NInf = NaN"

text \<open>Comparison \<open>a > b\<close>: false whenever an operand is NaN.\<close>

fun fgt :: "fl \<Rightarrow> fl \<Rightarrow> bool" where
  "fgt (Fin a) (Fin b) = (b < a)"
| "fgt NaN _ = False"
| "fgt _ NaN = False"
| "fgt PInf PInf = False"
| "fgt PInf _ = True"
| "fgt _ PInf = False"
| "fgt NInf _ = False"
| "fgt _ NInf = True"

text \<open>The binary steps of \<^verbatim>\<open>np.min\<close> and \<^verbatim>\<open>np.max\<close>, which propagate NaN.\<close>

fun fmin :: "fl \<Rightarrow> fl \<Rightarrow> fl" where
  "fmin NaN _ = NaN"
| "fmin _ NaN = NaN"
| "fmin a b = (if fgt a b then b else a)"

fun fmax :: "fl \<Rightarrow> fl \<Rightarrow> fl" where
  "fmax NaN _ = NaN"
| "fmax _ NaN = NaN"
| "fmax a b = (if fgt b a then b else a)"

text \<open>\<^verbatim>\<open>np.min(a)\<close>, \<^verbatim>\<open>np.max(a)\<close>: a zero-size array raises ValueError.\<close>

fun np_min :: "fl list \<Rightarrow> error + fl" where
  "np_min [] = Inl ValueError"
| "np_min (a # as) = Inr (fold fmin as a)"

fun np_max :: "fl list \<Rightarrow> error + fl" where
  "np_max [] = Inl ValueError"
| "np_max (a # as) = Inr (fold fmax as a)"

text \<open>\<^verbatim>\<open>int(x)\<close> on a float: truncation toward zero; NaN and the infinities raise.\<close>

fun py_int :: "fl \<Rightarrow> error + int" where
  "py_int (Fin a) = Inr (if 0 \<le> a then \<lfloor>a\<rfloor> else \<lceil>a\<rceil>)"
| "py_int NaN = Inl ValueError"
| "py_int PInf = Inl OverflowError"
| "py_int NInf = Inl OverflowError"

text \<open>\<^verbatim>\<open>a / b\<close> on two Python integers: true division, raising on a zero divisor.\<close>

definition py_truediv :: "int \<Rightarrow> int \<Rightarrow> error + real" where
  "py_truediv a b =
     (if b = 0 then Inl ZeroDivisionError else Inr (real_of_int a / real_of_int b))"

text \<open>A loop whose body may raise: the first exception ends it.\<close>

fun fold_err :: "('a \<Rightarrow> 's \<Rightarrow> error + 's) \<Rightarrow> 'a list \<Rightarrow> 's \<Rightarrow> error + 's" where
  "fold_err f [] s = Inr s"
| "fold_err f (x # xs) s = (case f x s of Inl e \<Rightarrow> Inl e | Inr s' \<Rightarrow> fold_err f xs s')"

fun map_err :: "('a \<Rightarrow> error + 'b) \<Rightarrow> 'a list \<Rightarrow> error + 'b list" where
  "map_err f [] = Inr []"
| "map_err f (x # xs) =
     (case f x of Inl e \<Rightarrow> Inl e
      | Inr y \<Rightarrow> (case map_err f xs of Inl e \<Rightarrow> Inl e | Inr ys \<Rightarrow> Inr (y # ys)))"

text \<open>\<^verbatim>\<open>range(a, b)\<close>.\<close>

definition py_range :: "int \<Rightarrow> int \<Rightarrow> int list" where
  "py_range a b = [a..b - 1]"

text \<open>
  An index into an axis of length \<open>n\<close> (a Python list or a numpy axis): a negative
  index counts from the end, anything outside \<open>[-n, n)\<close> raises IndexError.
\<close>

definition py_index :: "int \<Rightarrow> int \<Rightarrow> error + nat" where
  "py_index n i =
     (if 0 \<le> i \<and> i < n then Inr (nat i)
      else if - n \<le> i \<and> i < 0 then Inr (nat (i + n))
      else Inl IndexError)"

section \<open>Rounding to float64\<close>

text \<open>
  IEEE 754 binary64, round to nearest, ties to even. \<open>rne\<close> rounds a real number to the
  nearest integer, a tie to the even one. A float64 near \<open>x\<close> is an integer multiple of
  \<open>2 powi ulp_exp x\<close>: the exponent of \<open>x\<close> less the 52 fraction bits, and \<open>-1074\<close>
  throughout the subnormal range. \<open>rval x\<close> is the multiple nearest to \<open>x\<close>;
  a result of magnitude \<open>2 ^ 1024\<close> or more overflows to an infinity.
\<close>

definition rne :: "real \<Rightarrow> int" where
  "rne r =
     (if r - of_int \<lfloor>r\<rfloor> < 1 / 2 then \<lfloor>r\<rfloor>
      else if 1 / 2 < r - of_int \<lfloor>r\<rfloor> then \<lfloor>r\<rfloor> + 1
      else if even \<lfloor>r\<rfloor> then \<lfloor>r\<rfloor> else \<lfloor>r\<rfloor> + 1)"

definition ulp_exp :: "real \<Rightarrow> int" where
  "ulp_exp x = max \<lfloor>log 2 \<bar>x\<bar>\<rfloor> (- 1022) - 52"

definition huge :: real where
  "huge = 2 ^ 1024"

definition rval :: "real \<Rightarrow> real" where
  "rval x = of_int (rne (x / 2 powi ulp_exp x)) * 2 powi ulp_exp x"

definition round64 :: "real \<Rightarrow> fl" where
  "round64 x =
     (if huge \<le> \<bar>rval x\<bar> then (if 0 < x then PInf else NInf) else Fin (rval x))"

text \<open>The float64 result of an operation whose exact result is \<open>z\<close>.\<close>

fun rnd :: "fl \<Rightarrow> fl" where
  "rnd (Fin a) = round64 a"
| "rnd z = z"

definition add64 :: "fl \<Rightarrow> fl \<Rightarrow> fl" where
  "add64 a b = rnd (fadd a b)"

definition sub64 :: "fl \<Rightarrow> fl \<Rightarrow> fl" where
  "sub64 a b = rnd (fsub a b)"

definition mul64 :: "fl \<Rightarrow> fl \<Rightarrow> fl" where
  "mul64 a b = rnd (fmul a b)"

definition div64 :: "fl \<Rightarrow> fl \<Rightarrow> fl" where
  "div64 a b = rnd (fdiv a b)"

section \<open>normalize_points\<close>

text \<open>
  \<^verbatim>\<open>data = np.array(points)\<close> is a fresh float array; \<open>minX\<close>, \<open>rangeX\<close> and the
  others are scalars computed before either column is overwritten, and each column is
  rewritten from its own old values, so the in-place update is a map over the rows.
  \<^verbatim>\<open>np.min(data, axis=0)\<close> raises ValueError on an input without rows.
  There is no guard on the divisor: division is numpy's. Every operation of lines 24
  to 31 is a float64 operation: its result is rounded.
\<close>

definition normalize_points :: "(fl \<times> fl) list \<Rightarrow> error + (fl \<times> fl) list" where
  "normalize_points points =
     (case np_min (map fst points) of Inl e \<Rightarrow> Inl e | Inr minX \<Rightarrow>
     (case np_min (map snd points) of Inl e \<Rightarrow> Inl e | Inr minY \<Rightarrow>
     (case np_max (map fst points) of Inl e \<Rightarrow> Inl e | Inr maxX \<Rightarrow>
     (case np_max (map snd points) of Inl e \<Rightarrow> Inl e | Inr maxY \<Rightarrow>
        let rangeX = sub64 maxX minX; rangeY = sub64 maxY minY in
        if fgt rangeX rangeY then
          Inr (map (\<lambda>(x, y).
                 (add64 (div64 (sub64 (sub64 x minX) (mul64 (Fin 0.5) rangeX)) rangeX) (Fin 0.5),
                  add64 (div64 (sub64 (sub64 y minY) (mul64 (Fin 0.5) rangeY)) rangeX) (Fin 0.5)))
               points)
        else
          Inr (map (\<lambda>(x, y).
                 (add64 (div64 (sub64 (sub64 x minX) (mul64 (Fin 0.5) rangeX)) rangeY) (Fin 0.5),
                  add64 (div64 (sub64 (sub64 y minY) (mul64 (Fin 0.5) rangeY)) rangeY) (Fin 0.5)))
               points)))))"

text \<open>
  A sequence of finite points, as read from the data file. The entries of an array are
  float64 values; what is proved below for all real entries holds for these.
\<close>

definition fin_points :: "(real \<times> real) list \<Rightarrow> (fl \<times> fl) list" where
  "fin_points ps = map (\<lambda>(x, y). (Fin x, Fin y)) ps"

section \<open>heatmap_grid\<close>

text \<open>
  The bucket array \<^verbatim>\<open>X = np.ndarray((n, n), dtype=object)\<close>: every entry starts as
  \<^verbatim>\<open>None\<close> and becomes the list of the points put into that cell, in insertion order.
\<close>

type_synonym buckets = "(fl \<times> fl) list option list list"

text \<open>
  The bucket index of line 42, \<^verbatim>\<open>int(x * (n - 1))\<close>. The product is the exact one; the
  code rounds it to float64 before \<^verbatim>\<open>int\<close>, which moves a product within half a unit in
  the last place of an integer onto that integer.
\<close>

definition cell_index :: "int \<Rightarrow> fl \<Rightarrow> error + int" where
  "cell_index n x = py_int (fmul x (Fin (real_of_int (n - 1))))"

text \<open>
  Lines 43 to 46: the point \<open>p\<close> joins the list of the cell \<open>(i, j)\<close>, which is created
  when the entry is still \<^verbatim>\<open>None\<close>.
\<close>

definition put :: "buckets \<Rightarrow> nat \<Rightarrow> nat \<Rightarrow> fl \<times> fl \<Rightarrow> buckets" where
  "put X i j p =
     X[i := (X ! i)[j := (case X ! i ! j of None \<Rightarrow> Some [p] | Some ps \<Rightarrow> Some (ps @ [p]))]]"

text \<open>
  One pass of the first loop (lines 41 to 46), for the index \<open>idx\<close>: \<^verbatim>\<open>data[idx]\<close>
  raises IndexError past the last row, \<^verbatim>\<open>int\<close> raises on a non-finite product, and
  \<^verbatim>\<open>X[i, j]\<close> follows numpy's index rule on both axes.
\<close>

definition bucket_step :: "(fl \<times> fl) list \<Rightarrow> int \<Rightarrow> nat \<Rightarrow> buckets \<Rightarrow> error + buckets" where
  "bucket_step data n idx X =
     (if length data \<le> idx then Inl IndexError
      else (case data ! idx of (x, y) \<Rightarrow>
       (case cell_index n x of Inl e \<Rightarrow> Inl e | Inr i \<Rightarrow>
       (case cell_index n y of Inl e \<Rightarrow> Inl e | Inr j \<Rightarrow>
       (case py_index n i of Inl e \<Rightarrow> Inl e | Inr i' \<Rightarrow>
       (case py_index n j of Inl e \<Rightarrow> Inl e | Inr j' \<Rightarrow>
          Inr (put X i' j' (x, y))))))))"

text \<open>
  Lines 39 to 46: the bucket array after the first loop. \<open>points\<close> is the module-level
  variable \<^verbatim>\<open>points\<close>: line 40 iterates over \<^verbatim>\<open>np.arange(len(points))\<close>, not over the
  rows of the parameter \<^verbatim>\<open>data\<close>. \<^verbatim>\<open>np.ndarray((n, n))\<close> raises ValueError for a
  negative \<open>n\<close>.
\<close>

definition buckets_of :: "(fl \<times> fl) list \<Rightarrow> (fl \<times> fl) list \<Rightarrow> int \<Rightarrow> error + buckets" where
  "buckets_of points data n =
     (if n < 0 then Inl ValueError
      else fold_err (bucket_step data n) [0..<length points]
             (replicate (nat n) (replicate (nat n) None)))"

text \<open>The summand of lines 59 and 60; unary minus binds tighter than the division.\<close>

definition kernel :: "fl \<Rightarrow> real \<Rightarrow> real \<Rightarrow> fl \<Rightarrow> fl \<Rightarrow> fl" where
  "kernel sigma_sq x0 y0 x y =
     fexp (fsub
       (fdiv (fneg (fmul (fsub (Fin x0) x) (fsub (Fin x0) x))) (fmul (Fin 2) sigma_sq))
       (fdiv (fmul (fsub (Fin y0) y) (fsub (Fin y0) y)) (fmul (Fin 2) sigma_sq)))"

text \<open>
  The value accumulated into \<^verbatim>\<open>grid[i0][j0]\<close> (lines 52 to 60), starting from the zero
  of \<^verbatim>\<open>np.zeros\<close>. The two ranges stay inside \<open>[0, n)\<close>, so the reads of \<open>X\<close> are in
  range. \<^verbatim>\<open>i0 / (n - 1)\<close> divides two Python integers and raises when \<open>n = 1\<close>.
\<close>

definition grid_cell :: "buckets \<Rightarrow> fl \<Rightarrow> int \<Rightarrow> int \<Rightarrow> int \<Rightarrow> int \<Rightarrow> error + fl" where
  "grid_cell X sigma_sq n m i0 j0 =
     (case py_truediv i0 (n - 1) of Inl e \<Rightarrow> Inl e | Inr x0 \<Rightarrow>
     (case py_truediv j0 (n - 1) of Inl e \<Rightarrow> Inl e | Inr y0 \<Rightarrow>
        Inr (fold (\<lambda>i. fold (\<lambda>j acc.
                    (case X ! nat i ! nat j of None \<Rightarrow> acc
                     | Some ps \<Rightarrow> fold (\<lambda>(x, y) a. fadd a (kernel sigma_sq x0 y0 x y)) ps acc))
                  (py_range (max 0 (j0 - m)) (min (j0 + m) n)))
               (py_range (max 0 (i0 - m)) (min (i0 + m) n)) (Fin 0))))"

text \<open>
  \<^verbatim>\<open>heatmap_grid(data, sigma_sq, n, m)\<close>, in the module state where the global
  \<^verbatim>\<open>points\<close> has the value \<open>points\<close>.
\<close>

definition heatmap_grid ::
  "(fl \<times> fl) list \<Rightarrow> (fl \<times> fl) list \<Rightarrow> fl \<Rightarrow> int \<Rightarrow> int \<Rightarrow> error + fl list list" where
  "heatmap_grid points data sigma_sq n m =
     (case buckets_of points data n of
        Inl e \<Rightarrow> Inl e
      | Inr X \<Rightarrow>
          map_err (\<lambda>i0. map_err (\<lambda>j0. grid_cell X sigma_sq n m i0 j0) (py_range 0 n))
            (py_range 0 n))"

section \<open>heatmap_barplot\<close>

text \<open>
  The part of \<^verbatim>\<open>heatmap_barplot\<close> that maps the grid to bars (lines 66 to 102). A bar
  is the cube handed to \<^verbatim>\<open>bmesh.ops.create_cube\<close>: its size, the translation \<open>T\<close> and
  the scale factor of \<open>S\<close>. The result is \<^verbatim>\<open>bmList\<close>, one list of cubes per colour
  group. The creation of scene objects and materials after the loop is the host
  application's and is not modelled. The grid is a two-dimensional array: every row has
  the length of the first. The configuration numbers \<open>h\<close>, \<open>width\<close> and
  \<open>bar_scale\<close> are finite.
\<close>

record cube =
  cube_size :: real
  cube_tx :: real
  cube_ty :: real
  cube_tz :: fl
  cube_sz :: fl

text \<open>\<^verbatim>\<open>a / b\<close> for a Python float and a Python integer.\<close>

definition py_fdiv :: "real \<Rightarrow> int \<Rightarrow> error + real" where
  "py_fdiv a b = (if b = 0 then Inl ZeroDivisionError else Inr (a / real_of_int b))"

text \<open>Lines 87 to 102: the bar of a cell that passed the threshold.\<close>

definition place_bar ::
  "real \<Rightarrow> real \<Rightarrow> real \<Rightarrow> int \<Rightarrow> fl \<Rightarrow> real \<Rightarrow> real \<Rightarrow> fl \<Rightarrow> cube list list
     \<Rightarrow> error + cube list list" where
  "place_bar h width bar_width num_colors z_max x y z bmList =
     (let bar_height = fadd (fdiv (fmul (Fin (h - bar_width)) z) z_max) (Fin bar_width);
          t = fsub (Fin 1) (fexp (fdiv (fneg (fdiv z z_max)) (Fin 0.2)))
      in (case py_int (fmul (Fin (real_of_int num_colors)) t) of Inl e \<Rightarrow> Inl e | Inr c \<Rightarrow>
         (case py_index (int (length bmList)) (min c (num_colors - 1)) of
            Inl e \<Rightarrow> Inl e
          | Inr k \<Rightarrow>
              Inr (bmList[k := bmList ! k @
                     [\<lparr>cube_size = bar_width,
                       cube_tx = width * (x - 0.5),
                       cube_ty = width * (y - 0.5),
                       cube_tz = fdiv bar_height (Fin 2),
                       cube_sz = fdiv bar_height (Fin bar_width)\<rparr>]]))))"

text \<open>Lines 85 to 102: one pass of the inner loop, for the cell \<open>(i, j)\<close> of an \<open>n\<close> by \<open>m\<close> grid.\<close>

definition bar_step ::
  "fl list list \<Rightarrow> real \<Rightarrow> real \<Rightarrow> real \<Rightarrow> int \<Rightarrow> fl \<Rightarrow> int \<Rightarrow> int \<Rightarrow> int \<Rightarrow> int
     \<Rightarrow> cube list list \<Rightarrow> error + cube list list" where
  "bar_step grid h width bar_width num_colors z_max n m i j bmList =
     (case py_truediv i (n - 1) of Inl e \<Rightarrow> Inl e | Inr x \<Rightarrow>
     (case py_truediv j (m - 1) of Inl e \<Rightarrow> Inl e | Inr y \<Rightarrow>
        (let z = grid ! nat i ! nat j in
         if fgt z (Fin 0.001)
         then place_bar h width bar_width num_colors z_max x y z bmList
         else Inr bmList)))"

definition heatmap_barplot ::
  "fl list list \<Rightarrow> real \<Rightarrow> real \<Rightarrow> real \<Rightarrow> int \<Rightarrow> bool \<Rightarrow> error + cube list list" where
  "heatmap_barplot grid0 h width bar_scale num_colors logarithmic =
     (let grid = (if logarithmic then map (map (\<lambda>z. flog (fadd z (Fin 1)))) grid0 else grid0)
      in (case np_max (concat grid) of Inl e \<Rightarrow> Inl e | Inr z_max \<Rightarrow>
         (let n = int (length grid);
              m = (case grid of [] \<Rightarrow> 0 | r # _ \<Rightarrow> int (length r))
          in (case py_fdiv (bar_scale * width) (max n m) of Inl e \<Rightarrow> Inl e | Inr bar_width \<Rightarrow>
                fold_err (\<lambda>i. fold_err (bar_step grid h width bar_width num_colors z_max n m i)
                                 (py_range 0 m))
                  (py_range 0 n) (replicate (nat num_colors) [])))))"

section \<open>Reference quantities\<close>

text \<open>
  The quantities in which the properties below are stated, over finite points. \<open>rangeX\<close>
  and \<open>rangeY\<close> are the ranges of the input as real numbers, \<open>translate\<close> and \<open>scale\<close>
  the translated and the scaled input.
\<close>

definition rangeX :: "(real \<times> real) list \<Rightarrow> real" where
  "rangeX ps = Max (fst ` set ps) - Min (fst ` set ps)"

definition rangeY :: "(real \<times> real) list \<Rightarrow> real" where
  "rangeY ps = Max (snd ` set ps) - Min (snd ` set ps)"



text \<open>The Gaussian contribution of a point \<open>p\<close> to the cell centre \<open>(x0, y0)\<close>.\<close>

definition gauss :: "real \<Rightarrow> real \<Rightarrow> real \<Rightarrow> real \<times> real \<Rightarrow> real" where
  "gauss s x0 y0 p = exp (- ((x0 - fst p)\<^sup>2) / (2 * s) - (y0 - snd p)\<^sup>2 / (2 * s))"

text \<open>
  The bucket cell of a point, the search window of the target cell \<open>(i0, j0)\<close> with its
  exclusive upper bounds, and the sum of the contributions of the points whose cell
  lies in the window.
\<close>

definition cell_of :: "int \<Rightarrow> real \<times> real \<Rightarrow> int \<times> int" where
  "cell_of n p = (\<lfloor>fst p * real_of_int (n - 1)\<rfloor>, \<lfloor>snd p * real_of_int (n - 1)\<rfloor>)"

definition in_window :: "int \<Rightarrow> int \<Rightarrow> int \<Rightarrow> int \<Rightarrow> int \<times> int \<Rightarrow> bool" where
  "in_window n m i0 j0 c =
     (max 0 (i0 - m) \<le> fst c \<and> fst c < min (i0 + m) n \<and>
      max 0 (j0 - m) \<le> snd c \<and> snd c < min (j0 + m) n)"

definition window_sum :: "(real \<times> real) list \<Rightarrow> real \<Rightarrow> int \<Rightarrow> int \<Rightarrow> int \<Rightarrow> int \<Rightarrow> real" where
  "window_sum ps s n m i0 j0 =
     (\<Sum>p \<leftarrow> filter (\<lambda>p. in_window n m i0 j0 (cell_of n p)) ps.
        gauss s (real_of_int i0 / real_of_int (n - 1)) (real_of_int j0 / real_of_int (n - 1)) p)"


text \<open>The points of an entry of the bucket array.\<close>

definition bucket_list :: "'a list option \<Rightarrow> 'a list" where
  "bucket_list b = (case b of None \<Rightarrow> [] | Some ps \<Rightarrow> ps)"

text \<open>
  Invariant of the first loop. \<open>fin_buckets n X\<close>: the array is \<open>n\<close> by \<open>n\<close> and
  holds finite points only.
\<close>

fun is_fin :: "fl \<Rightarrow> bool" where
  "is_fin (Fin a) = True"
| "is_fin _ = False"

definition fin_pt :: "fl \<times> fl \<Rightarrow> bool" where
  "fin_pt p = (is_fin (fst p) \<and> is_fin (snd p))"

definition fin_buckets :: "int \<Rightarrow> buckets \<Rightarrow> bool" where
  "fin_buckets n X =
     (length X = nat n \<and>
      (\<forall>row\<in>set X. length row = nat n \<and>
         (\<forall>b\<in>set row. \<forall>p\<in>set (bucket_list b). fin_pt p)))"

text \<open>A finite float that is not negative.\<close>

definition nonneg_fl :: "fl \<Rightarrow> bool" where
  "nonneg_fl z = (case z of Fin v \<Rightarrow> 0 \<le> v | _ \<Rightarrow> False)"

text \<open>
  The float64 numbers: the integer multiples \<open>k * 2 powi e\<close> with \<open>\<bar>k\<bar> < 2 ^ 53\<close> and
  \<open>- 1074 \<le> e \<le> 971\<close>.
\<close>

definition is_f64 :: "real \<Rightarrow> bool" where
  "is_f64 y = (\<exists>k e. y = of_int k * 2 powi e \<and> \<bar>k\<bar> < 2 ^ 53 \<and> - 1074 \<le> e \<and> e \<le> 971)"

text \<open>
  The ranges of line 24 as the code computes them, the divisor chosen on line 26, and
  the documented formula \<open>(x - min - 0.5 * range) / divisor + 0.5\<close> of the normalizer
  evaluated in float64, operation by operation.
\<close>

definition frangeX :: "(real \<times> real) list \<Rightarrow> fl" where
  "frangeX ps = round64 (Max (fst ` set ps) - Min (fst ` set ps))"

definition frangeY :: "(real \<times> real) list \<Rightarrow> fl" where
  "frangeY ps = round64 (Max (snd ` set ps) - Min (snd ` set ps))"

definition fdivisor :: "(real \<times> real) list \<Rightarrow> fl" where
  "fdivisor ps = (if fgt (frangeX ps) (frangeY ps) then frangeX ps else frangeY ps)"

definition coord64 :: "real \<Rightarrow> real \<Rightarrow> fl \<Rightarrow> fl \<Rightarrow> fl" where
  "coord64 x mn r d =
     add64 (div64 (sub64 (round64 (x - mn)) (mul64 (Fin 0.5) r)) d) (Fin 0.5)"

text \<open>
  A column of output coordinates fills \<open>[0, 1]\<close>: every entry is a finite number of
  \<open>[0, 1]\<close>, and 0 and 1 are among the entries.
\<close>

fun in_unit :: "fl \<Rightarrow> bool" where
  "in_unit (Fin a) = (0 \<le> a \<and> a \<le> 1)"
| "in_unit _ = False"

definition fills_unit :: "fl list \<Rightarrow> bool" where
  "fills_unit vs = (Fin 0 \<in> set vs \<and> Fin 1 \<in> set vs \<and> list_all in_unit vs)"




section \<open>Evaluation\<close>

lemma py_range_unfold: "py_range a b = (if a < b then a # py_range (a + 1) b else [])"
  unfolding py_range_def by (simp add: upto_rec1)

lemma set_py_range: "set (py_range a b) = {a..<b}"
  unfolding py_range_def by auto

lemmas grid_eval = heatmap_grid_def buckets_of_def bucket_step_def put_def cell_index_def
  py_index_def py_range_unfold grid_cell_def py_truediv_def kernel_def fsub_def

lemma fold_err_id:
  "(\<And>x. x \<in> set xs \<Longrightarrow> f x s = Inr s) \<Longrightarrow> fold_err f xs s = Inr s"
  by (induction xs) auto

section \<open>Properties of rounding\<close>

lemma rne_of_int [simp]: "rne (of_int k) = k"
  by (simp add: rne_def)

lemma rne_bounds: "\<lfloor>r\<rfloor> \<le> rne r" "rne r \<le> \<lfloor>r\<rfloor> + 1"
  by (simp_all add: rne_def)

lemma rne_mono:
  assumes "a \<le> b"
  shows "rne a \<le> rne b"
proof (cases "\<lfloor>a\<rfloor> = \<lfloor>b\<rfloor>")
  case True
  have "a - of_int \<lfloor>a\<rfloor> \<le> b - of_int \<lfloor>b\<rfloor>" using assms True by simp
  then show ?thesis unfolding rne_def True by auto
next
  case False
  have "\<lfloor>a\<rfloor> \<le> \<lfloor>b\<rfloor>" using assms by (rule floor_mono)
  then have "\<lfloor>a\<rfloor> + 1 \<le> \<lfloor>b\<rfloor>" using False by simp
  then show ?thesis using rne_bounds(2)[of a] rne_bounds(1)[of b] by linarith
qed

lemma powr2_int: "2 powr (real_of_int k) = (2::real) powi k"
  by (rule powr_real_of_int') simp_all

lemma floor_log2:
  assumes "2 powi k \<le> x" "x < 2 powi (k + 1)"
  shows "\<lfloor>log 2 x\<rfloor> = k"
proof -
  have "(0::real) < 2 powi k" by simp
  then have pos: "0 < x" using assms(1) by linarith
  have e: "real_of_int k + 1 = real_of_int (k + 1)" by simp
  have "2 powr (real_of_int k) \<le> x \<and> x < 2 powr (real_of_int k + 1)"
    unfolding e powr2_int using assms by simp
  then show ?thesis using floor_log_eq_powr_iff[OF pos, of 2 k] by simp
qed

lemma log2_bounds:
  assumes "0 < x"
  shows "2 powi \<lfloor>log 2 x\<rfloor> \<le> x" "x < 2 powi (\<lfloor>log 2 x\<rfloor> + 1)"
proof -
  have e: "real_of_int \<lfloor>log 2 x\<rfloor> + 1 = real_of_int (\<lfloor>log 2 x\<rfloor> + 1)" by simp
  have "2 powr (real_of_int \<lfloor>log 2 x\<rfloor>) \<le> x \<and> x < 2 powr (real_of_int \<lfloor>log 2 x\<rfloor> + 1)"
    using floor_log_eq_powr_iff[OF assms, of 2 "\<lfloor>log 2 x\<rfloor>"] by simp
  then show "2 powi \<lfloor>log 2 x\<rfloor> \<le> x" "x < 2 powi (\<lfloor>log 2 x\<rfloor> + 1)"
    unfolding e powr2_int by simp_all
qed

lemma ulp_exp_eq:
  assumes "2 powi k \<le> \<bar>x\<bar>" "\<bar>x\<bar> < 2 powi (k + 1)"
  shows "ulp_exp x = max k (- 1022) - 52"
  unfolding ulp_exp_def floor_log2[OF assms] ..

lemma ulp_exp_lower: "- 1074 \<le> ulp_exp x"
  by (simp add: ulp_exp_def)

lemma ulp_exp_bounds:
  assumes "x \<noteq> 0"
  shows "\<bar>x\<bar> < 2 powi (ulp_exp x + 53)"
proof -
  have pos: "0 < \<bar>x\<bar>" using assms by simp
  have "\<bar>x\<bar> < 2 powi (\<lfloor>log 2 \<bar>x\<bar>\<rfloor> + 1)" by (rule log2_bounds(2)[OF pos])
  also have "\<dots> \<le> 2 powi (ulp_exp x + 53)"
    by (rule power_int_increasing) (simp_all add: ulp_exp_def)
  finally show ?thesis .
qed

lemma round64_eq:
  assumes "\<bar>rval x\<bar> < huge"
  shows "round64 x = Fin (rval x)"
  using assms by (simp add: round64_def)

lemma rval_0 [simp]: "rval 0 = 0"
  by (simp add: rval_def rne_def)

lemma huge_pos: "0 < huge"
  by (simp add: huge_def)

lemma round64_0 [simp]: "round64 0 = Fin 0"
  using huge_pos by (simp add: round64_def)

lemma powi2_less_iff: "(2::real) powi a < 2 powi b \<longleftrightarrow> a < b"
proof
  assume l: "(2::real) powi a < 2 powi b"
  show "a < b"
  proof (rule ccontr)
    assume "\<not> a < b"
    then have "b \<le> a" by simp
    then have "(2::real) powi b \<le> 2 powi a" by (rule power_int_increasing) simp
    then show False using l by simp
  qed
next
  assume "a < b"
  then show "(2::real) powi a < 2 powi b" by (rule power_int_strict_increasing) simp
qed

lemma powi2_le_iff: "(2::real) powi a \<le> 2 powi b \<longleftrightarrow> a \<le> b"
  using powi2_less_iff[of b a] by (auto simp: not_less[symmetric])

lemma powi_split: 
  assumes "e' \<le> e" 
  shows "(2::real) powi e = 2 ^ nat (e - e') * 2 powi e'"
proof -
  have "(2::real) powi e = 2 powi (int (nat (e - e')) + e')" using assms by simp
  also have "\<dots> = 2 powi int (nat (e - e')) * 2 powi e'"
    by (rule power_int_add) simp
  also have "\<dots> = 2 ^ nat (e - e') * 2 powi e'"
    by (simp only: power_int_of_nat)
  finally show ?thesis .
qed

lemma round64_repr:
  assumes "is_f64 y"
  shows "round64 y = Fin y"
proof (cases "y = 0")
  case True
  then show ?thesis by simp
next
  case False
  from assms obtain k e where y: "y = of_int k * 2 powi e"
    and k: "\<bar>k\<bar> < 2 ^ 53" and e: "- 1074 \<le> e" "e \<le> 971"
    unfolding is_f64_def by blast
  have ay: "\<bar>y\<bar> = of_int \<bar>k\<bar> * 2 powi e" by (simp add: y abs_mult)
  have "real_of_int \<bar>k\<bar> < 2 ^ 53" using k by (metis of_int_less_numeral_power_cancel_iff)
  then have lt: "\<bar>y\<bar> < 2 ^ 53 * 2 powi e"
    unfolding ay by (intro mult_strict_right_mono) simp_all
  have ub: "\<bar>y\<bar> < 2 powi (e + 53)"
    using lt by (simp add: power_int_add)
  define e' where "e' = ulp_exp y"
  have pos: "0 < \<bar>y\<bar>" using False by simp
  have "2 powi \<lfloor>log 2 \<bar>y\<bar>\<rfloor> \<le> \<bar>y\<bar>" by (rule log2_bounds(1)[OF pos])
  then have "(2::real) powi \<lfloor>log 2 \<bar>y\<bar>\<rfloor> < 2 powi (e + 53)" using ub by linarith
  then have "\<lfloor>log 2 \<bar>y\<bar>\<rfloor> < e + 53" by (simp only: powi2_less_iff)
  then have le: "e' \<le> e" using e(1) by (simp add: e'_def ulp_exp_def)
  have q: "y / 2 powi e' = real_of_int (k * 2 ^ nat (e - e'))"
    by (simp add: y powi_split[OF le])
  have "real_of_int (rne (y / 2 powi e')) * 2 powi e' = y"
    unfolding q rne_of_int by (simp add: y powi_split[OF le])
  then have r: "rval y = y" unfolding rval_def e'_def .
  have "(2::real) ^ 53 * 2 powi e \<le> 2 ^ 53 * 2 powi 971"
    using e(2) by (intro mult_left_mono power_int_increasing) simp_all
  also have "\<dots> = huge" by (simp add: huge_def)
  finally have "\<bar>y\<bar> < huge" using lt by linarith
  then have b: "\<bar>rval y\<bar> < huge" by (simp only: r)
  show ?thesis using round64_eq[OF b] by (simp only: r)
qed

lemma is_f64_0: "is_f64 0"
  unfolding is_f64_def by (rule exI[of _ 0], rule exI[of _ 0]) simp

lemma rne_abs_le:
  assumes "\<bar>r\<bar> \<le> of_int m"
  shows "\<bar>rne r\<bar> \<le> m"
proof -
  have "r \<le> of_int m" "of_int (- m) \<le> r" using assms by simp_all
  then have "rne r \<le> m" "- m \<le> rne r"
    using rne_mono[of r "of_int m"] rne_mono[of "of_int (- m)" r] by (simp_all only: rne_of_int)
  then show ?thesis by simp
qed

lemma rne_abs_ge:
  assumes "of_int m \<le> \<bar>r\<bar>" "0 \<le> m"
  shows "m \<le> \<bar>rne r\<bar>"
proof (cases "0 \<le> r")
  case True
  then have "of_int m \<le> r" using assms by simp
  then have "m \<le> rne r" using rne_mono[of "of_int m" r] by (simp only: rne_of_int)
  then show ?thesis by simp
next
  case False
  then have "r \<le> of_int (- m)" using assms by simp
  then have "rne r \<le> - m" using rne_mono[of r "of_int (- m)"] by (simp only: rne_of_int)
  then show ?thesis by simp
qed

lemma quot_bound:
  assumes "x \<noteq> 0"
  shows "\<bar>x / 2 powi ulp_exp x\<bar> < 2 ^ 53"
proof -
  have "\<bar>x\<bar> < 2 powi (ulp_exp x + 53)" by (rule ulp_exp_bounds[OF assms])
  also have "\<dots> = 2 ^ 53 * 2 powi ulp_exp x" by (simp add: power_int_add)
  finally have "\<bar>x\<bar> / 2 powi ulp_exp x < 2 ^ 53"
    by (simp add: pos_divide_less_eq)
  then show ?thesis by (simp add: abs_divide)
qed

lemma quot_lower:
  assumes "x \<noteq> 0" "- 1022 \<le> \<lfloor>log 2 \<bar>x\<bar>\<rfloor>"
  shows "2 ^ 52 \<le> \<bar>x / 2 powi ulp_exp x\<bar>"
proof -
  have pos: "0 < \<bar>x\<bar>" using assms(1) by simp
  have e: "\<lfloor>log 2 \<bar>x\<bar>\<rfloor> = ulp_exp x + 52" using assms(2) by (simp add: ulp_exp_def)
  have "2 powi (ulp_exp x + 52) \<le> \<bar>x\<bar>" using log2_bounds(1)[OF pos] unfolding e .
  then have "2 ^ 52 * 2 powi ulp_exp x \<le> \<bar>x\<bar>" by (simp add: power_int_add)
  then have "2 ^ 52 \<le> \<bar>x\<bar> / 2 powi ulp_exp x"
    by (simp add: pos_le_divide_eq)
  then show ?thesis by (simp add: abs_divide)
qed

lemma round64_is_f64:
  assumes "round64 x = Fin y"
  shows "is_f64 y"
proof (cases "x = 0")
  case True
  then show ?thesis using assms is_f64_0 by simp
next
  case False
  define e where "e = ulp_exp x"
  define k where "k = rne (x / 2 powi e)"
  have y: "y = of_int k * 2 powi e" and fin: "\<bar>real_of_int k * 2 powi e\<bar> < huge"
    using assms unfolding round64_def rval_def e_def k_def
    by (auto split: if_splits)
  have elo: "- 1074 \<le> e" unfolding e_def by (rule ulp_exp_lower)
  have "\<bar>x / 2 powi e\<bar> \<le> real_of_int (2 ^ 53)"
    using quot_bound[OF False] unfolding e_def by simp
  then have kle: "\<bar>k\<bar> \<le> 2 ^ 53" unfolding k_def by (rule rne_abs_le)
  have ay: "\<bar>real_of_int k * 2 powi e\<bar> = real_of_int \<bar>k\<bar> * 2 powi e"
    by (simp add: abs_mult)
  show ?thesis
  proof (cases "\<bar>k\<bar> = 2 ^ 53")
    case True
    have "2 powi (e + 53) = real_of_int \<bar>k\<bar> * 2 powi e"
      unfolding True by (simp add: power_int_add)
    also have "\<dots> < huge" using fin unfolding ay .
    also have "huge = 2 powi 1024" by (simp add: huge_def)
    finally have "e + 53 < 1024" by (simp only: powi2_less_iff)
    then have ehi: "e + 1 \<le> 971" by simp
    have "k = 2 ^ 53 \<or> k = - (2 ^ 53)" using True by linarith
    then have "y = of_int (k div 2) * 2 powi (e + 1)"
      unfolding y by (auto simp: power_int_add)
    moreover have "\<bar>k div 2\<bar> < 2 ^ 53" using \<open>k = 2 ^ 53 \<or> k = - (2 ^ 53)\<close> by auto
    ultimately show ?thesis
      unfolding is_f64_def using elo ehi by (intro exI[of _ "k div 2"] exI[of _ "e + 1"]) simp
  next
    case False
    then have klt: "\<bar>k\<bar> < 2 ^ 53" using kle by simp
    have ehi: "e \<le> 971"
    proof (rule ccontr)
      assume "\<not> e \<le> 971"
      then have big: "972 \<le> e" by simp
      then have l: "- 1022 \<le> \<lfloor>log 2 \<bar>x\<bar>\<rfloor>" unfolding e_def ulp_exp_def by linarith
      have "real_of_int (2 ^ 52) \<le> \<bar>x / 2 powi e\<bar>"
        using quot_lower[OF \<open>x \<noteq> 0\<close> l] unfolding e_def by simp
      then have "2 ^ 52 \<le> \<bar>k\<bar>" unfolding k_def by (rule rne_abs_ge) simp
      then have "(2::real) ^ 52 \<le> real_of_int \<bar>k\<bar>"
        by (metis of_int_le_iff of_int_numeral of_int_power)
      moreover have "(2::real) powi 972 \<le> 2 powi e" using big by (simp only: powi2_le_iff)
      ultimately have "(2::real) ^ 52 * 2 powi 972 \<le> real_of_int \<bar>k\<bar> * 2 powi e"
        by (intro mult_mono) simp_all
      moreover have "(2::real) ^ 52 * 2 powi 972 = huge" by (simp add: huge_def)
      ultimately show False using fin unfolding ay by linarith
    qed
    show ?thesis unfolding is_f64_def using y klt elo ehi by blast
  qed
qed

lemma is_f64_half:
  assumes "is_f64 y" "2 powi (- 1021) \<le> \<bar>y\<bar>"
  shows "is_f64 (y / 2)"
proof -
  from assms(1) obtain k e where y: "y = of_int k * 2 powi e"
    and k: "\<bar>k\<bar> < 2 ^ 53" and e: "- 1074 \<le> e" "e \<le> 971"
    unfolding is_f64_def by blast
  have "e \<noteq> - 1074"
  proof
    assume e': "e = - 1074"
    have "real_of_int \<bar>k\<bar> < 2 ^ 53" using k by (metis of_int_less_numeral_power_cancel_iff)
    then have "real_of_int \<bar>k\<bar> * 2 powi e < 2 ^ 53 * 2 powi e"
      by (intro mult_strict_right_mono) simp_all
    also have "\<dots> = 2 powi (- 1021)" unfolding e' by (simp add: power_int_minus field_simps)
    finally show False using assms(2) unfolding y by (simp add: abs_mult)
  qed
  then have e1: "- 1074 \<le> e - 1" "e - 1 \<le> 971" using e by simp_all
  have "y / 2 = of_int k * 2 powi (e - 1)"
    unfolding y by (simp add: power_int_diff)
  then show ?thesis unfolding is_f64_def using k e1 by blast
qed

lemma is_f64_neg:
  assumes "is_f64 y"
  shows "is_f64 (- y)"
proof -
  from assms obtain k e where "y = of_int k * 2 powi e"
    and "\<bar>k\<bar> < 2 ^ 53" and "- 1074 \<le> e" and "e \<le> 971"
    unfolding is_f64_def by blast
  then have "- y = of_int (- k) * 2 powi e \<and> \<bar>- k\<bar> < 2 ^ 53 \<and> - 1074 \<le> e \<and> e \<le> 971"
    by simp
  then show ?thesis unfolding is_f64_def by blast
qed

lemma rval_repr:
  assumes "is_f64 y"
  shows "rval y = y"
proof -
  have "round64 y = Fin y" by (rule round64_repr[OF assms])
  then show ?thesis unfolding round64_def by (auto split: if_splits)
qed

lemma rne_neg: "rne (- r) = - rne r"
proof (cases "r = of_int \<lfloor>r\<rfloor>")
  case True
  then obtain k where r: "r = of_int k" ..
  have "rne (of_int (- k)) = - k" by (rule rne_of_int)
  then show ?thesis unfolding r by simp
next
  case False
  have lo: "of_int \<lfloor>r\<rfloor> < r" using False of_int_floor_le[of r] by linarith
  have hi: "r < of_int \<lfloor>r\<rfloor> + 1" by linarith
  have f: "\<lfloor>- r\<rfloor> = - \<lfloor>r\<rfloor> - 1"
  proof (rule floor_unique)
    show "of_int (- \<lfloor>r\<rfloor> - 1) \<le> - r" by simp linarith
    show "- r < of_int (- \<lfloor>r\<rfloor> - 1) + 1" using lo by simp
  qed
  show ?thesis unfolding rne_def[of "- r"] rne_def[of r] f using lo hi by auto
qed

lemma ulp_exp_neg: "ulp_exp (- x) = ulp_exp x"
  by (simp add: ulp_exp_def)

lemma rval_neg: "rval (- x) = - rval x"
  by (simp add: rval_def ulp_exp_neg rne_neg)

lemma ulp_exp_mono:
  assumes "0 < x" "x \<le> y"
  shows "ulp_exp x \<le> ulp_exp y"
proof -
  have "log 2 x \<le> log 2 y" using assms by simp
  then have "\<lfloor>log 2 x\<rfloor> \<le> \<lfloor>log 2 y\<rfloor>" by (rule floor_mono)
  then show ?thesis using assms by (simp add: ulp_exp_def)
qed

lemma rval_mono_pos:
  assumes "0 < x" "x \<le> y"
  shows "rval x \<le> rval y"
proof (cases "ulp_exp x = ulp_exp y")
  case True
  have "x / 2 powi ulp_exp y \<le> y / 2 powi ulp_exp y"
    using assms(2) by (simp add: divide_right_mono)
  then have "rne (x / 2 powi ulp_exp y) \<le> rne (y / 2 powi ulp_exp y)" by (rule rne_mono)
  then have "real_of_int (rne (x / 2 powi ulp_exp y)) \<le> real_of_int (rne (y / 2 powi ulp_exp y))"
    by simp
  then show ?thesis unfolding rval_def True
    by (rule mult_right_mono) simp
next
  case False
  have ypos: "0 < y" using assms by linarith
  have lt: "ulp_exp x < ulp_exp y" using ulp_exp_mono[OF assms] False by simp
  have xn: "x \<noteq> 0" and yn: "y \<noteq> 0" using assms by simp_all
  have "\<bar>x / 2 powi ulp_exp x\<bar> \<le> real_of_int (2 ^ 53)"
    using quot_bound[OF xn] by simp
  then have "\<bar>rne (x / 2 powi ulp_exp x)\<bar> \<le> 2 ^ 53" by (rule rne_abs_le)
  then have "rne (x / 2 powi ulp_exp x) \<le> 2 ^ 53" by simp
  then have "real_of_int (rne (x / 2 powi ulp_exp x)) \<le> 2 ^ 53"
    using of_int_le_iff[of "rne (x / 2 powi ulp_exp x)" "2 ^ 53", where ?'a = real] by simp
  then have "rval x \<le> 2 ^ 53 * 2 powi ulp_exp x" unfolding rval_def
    by (rule mult_right_mono) simp
  also have "\<dots> = 2 powi (ulp_exp x + 53)" by (simp add: power_int_add)
  also have "\<dots> \<le> 2 powi (ulp_exp y + 52)"
    by (rule power_int_increasing) (use lt in simp_all)
  also have "\<dots> = 2 ^ 52 * 2 powi ulp_exp y" by (simp add: power_int_add)
  also have "\<dots> \<le> rval y"
  proof -
    have "- 1074 \<le> ulp_exp x" by (rule ulp_exp_lower)
    then have "- 1074 < ulp_exp y" using lt by linarith
    then have n: "- 1022 \<le> \<lfloor>log 2 \<bar>y\<bar>\<rfloor>" unfolding ulp_exp_def by linarith
    have "real_of_int (2 ^ 52) \<le> \<bar>y / 2 powi ulp_exp y\<bar>"
      using quot_lower[OF yn n] by simp
    moreover have "0 \<le> y / 2 powi ulp_exp y" using ypos by simp
    ultimately have "real_of_int (2 ^ 52) \<le> y / 2 powi ulp_exp y" by linarith
    then have "rne (real_of_int (2 ^ 52)) \<le> rne (y / 2 powi ulp_exp y)" by (rule rne_mono)
    then have "2 ^ 52 \<le> rne (y / 2 powi ulp_exp y)" by (simp only: rne_of_int)
    then have "2 ^ 52 \<le> real_of_int (rne (y / 2 powi ulp_exp y))"
      using of_int_le_iff[of "2 ^ 52" "rne (y / 2 powi ulp_exp y)", where ?'a = real] by simp
    then show ?thesis unfolding rval_def by (rule mult_right_mono) simp
  qed
  finally show ?thesis .
qed

lemma rval_nonneg:
  assumes "0 \<le> x"
  shows "0 \<le> rval x"
proof -
  have "0 \<le> x / 2 powi ulp_exp x" using assms by simp
  then have "rne 0 \<le> rne (x / 2 powi ulp_exp x)" by (rule rne_mono)
  then have "0 \<le> rne (x / 2 powi ulp_exp x)" by (simp add: rne_def)
  then show ?thesis unfolding rval_def by simp
qed

lemma rval_mono:
  assumes "x \<le> y"
  shows "rval x \<le> rval y"
proof -
  consider "0 < x" | "x \<le> 0" "0 \<le> y" | "y < 0" using assms by linarith
  then show ?thesis
  proof cases
    case 1
    then show ?thesis using assms by (rule rval_mono_pos)
  next
    case 2
    have "0 \<le> rval (- x)" using 2(1) by (intro rval_nonneg) simp
    then have "rval x \<le> 0" by (simp add: rval_neg)
    moreover have "0 \<le> rval y" using 2(2) by (rule rval_nonneg)
    ultimately show ?thesis by linarith
  next
    case 3
    have "rval (- y) \<le> rval (- x)" by (rule rval_mono_pos) (use 3 assms in simp_all)
    then show ?thesis by (simp add: rval_neg)
  qed
qed

text \<open>A value between two representable numbers below the overflow threshold rounds
  to a finite value between them.\<close>

lemma round64_between:
  assumes "is_f64 a" "is_f64 b" "a \<le> x" "x \<le> b"
  shows "round64 x = Fin (rval x) \<and> a \<le> rval x \<and> rval x \<le> b"
proof -
  have a: "rval a = a" and b: "rval b = b" using assms(1,2) by (simp_all add: rval_repr)
  have lo: "a \<le> rval x" using rval_mono[OF assms(3)] a by simp
  have hi: "rval x \<le> b" using rval_mono[OF assms(4)] b by simp
  have "round64 a = Fin a" "round64 b = Fin b" using assms(1,2) by (simp_all add: round64_repr)
  then have "\<bar>a\<bar> < huge" "\<bar>b\<bar> < huge"
    unfolding round64_def a b by (auto split: if_splits)
  then have "\<bar>rval x\<bar> < huge" using lo hi by linarith
  then show ?thesis using lo hi by (simp add: round64_eq)
qed

lemma round64_exact:
  assumes "x = of_int k * 2 powi e" "\<bar>k\<bar> < 2 ^ 53" "- 1074 \<le> e" "e \<le> 971"
  shows "round64 x = Fin x"
  by (rule round64_repr) (use assms in \<open>auto simp: is_f64_def\<close>)

lemma round64_eval:
  assumes "2 powi k \<le> \<bar>x\<bar>" "\<bar>x\<bar> < 2 powi (k + 1)" "e = max k (- 1022) - 52"
    "rne (x / 2 powi e) = m" "\<bar>of_int m * 2 powi e\<bar> < huge"
  shows "round64 x = Fin (of_int m * 2 powi e)"
proof -
  have e: "ulp_exp x = e" unfolding assms(3) by (rule ulp_exp_eq[OF assms(1,2)])
  have "rval x = of_int m * 2 powi e" unfolding rval_def e assms(4) ..
  then show ?thesis using round64_eq[of x] assms(5) by simp
qed

lemma small_fin: "\<bar>y\<bar> \<le> 4 \<Longrightarrow> \<bar>y\<bar> < huge"
  unfolding huge_def by (rule le_less_trans[where y=4]) simp_all









section \<open>Properties of normalize_points\<close>

lemma fold_fmin_fin: "fold fmin (map Fin xs) (Fin x) = Fin (fold min xs x)"
  by (induction xs arbitrary: x) (auto simp: min_def)

lemma fold_fmax_fin: "fold fmax (map Fin xs) (Fin x) = Fin (fold max xs x)"
  by (induction xs arbitrary: x) (auto simp: max_def)

lemma np_min_fin: "xs \<noteq> [] \<Longrightarrow> np_min (map Fin xs) = Inr (Fin (Min (set xs)))"
proof (cases xs)
  case (Cons a list)
  have "Min (set (a # list)) = fold min list a" by (rule Min.set_eq_fold)
  then show ?thesis using Cons by (simp add: fold_fmin_fin)
qed simp

lemma np_max_fin: "xs \<noteq> [] \<Longrightarrow> np_max (map Fin xs) = Inr (Fin (Max (set xs)))"
proof (cases xs)
  case (Cons a list)
  have "Max (set (a # list)) = fold max list a" by (rule Max.set_eq_fold)
  then show ?thesis using Cons by (simp add: fold_fmax_fin)
qed simp

lemma fst_fin_points: "map fst (fin_points ps) = map Fin (map fst ps)"
  by (simp add: fin_points_def case_prod_unfold comp_def)

lemma snd_fin_points: "map snd (fin_points ps) = map Fin (map snd ps)"
  by (simp add: fin_points_def case_prod_unfold comp_def)

text \<open>
  On a non-empty input of finite points the minima and maxima are those of the
  coordinates, and every output coordinate is the float64 evaluation of the formula.
\<close>

lemma frange_alt: "frangeX ps = round64 (rangeX ps)" "frangeY ps = round64 (rangeY ps)"
  by (simp_all add: frangeX_def frangeY_def rangeX_def rangeY_def)

lemma sub64_fin: "sub64 (Fin a) (Fin b) = round64 (a - b)"
  by (simp add: sub64_def fsub_def)

lemma normalize_fin:
  assumes "ps \<noteq> []"
  shows "normalize_points (fin_points ps) =
     Inr (map (\<lambda>(x, y).
          (coord64 x (Min (fst ` set ps)) (frangeX ps) (fdivisor ps),
           coord64 y (Min (snd ` set ps)) (frangeY ps) (fdivisor ps)))
        ps)"
proof -
  have a: "np_min (map fst (fin_points ps)) = Inr (Fin (Min (fst ` set ps)))"
    unfolding fst_fin_points using assms np_min_fin[of "map fst ps"] by simp
  have b: "np_min (map snd (fin_points ps)) = Inr (Fin (Min (snd ` set ps)))"
    unfolding snd_fin_points using assms np_min_fin[of "map snd ps"] by simp
  have c: "np_max (map fst (fin_points ps)) = Inr (Fin (Max (fst ` set ps)))"
    unfolding fst_fin_points using assms np_max_fin[of "map fst ps"] by simp
  have d: "np_max (map snd (fin_points ps)) = Inr (Fin (Max (snd ` set ps)))"
    unfolding snd_fin_points using assms np_max_fin[of "map snd ps"] by simp
  show ?thesis
    unfolding normalize_points_def a b c d sum.case Let_def sub64_fin
    by (simp add: fin_points_def coord64_def frangeX_def frangeY_def fdivisor_def
        case_prod_unfold comp_def sub64_fin)
qed

lemma coord64_nan: "coord64 x x (Fin 0) (Fin 0) = NaN"
  by (simp add: coord64_def sub64_def mul64_def div64_def add64_def fsub_def)

lemma normalize_all_nan:
  assumes "ps \<noteq> []" "rangeX ps = 0" "rangeY ps = 0"
  shows "normalize_points (fin_points ps) = Inr (map (\<lambda>p. (NaN, NaN)) ps)"
proof -
  have fx: "x = Min (fst ` set ps)" if "x \<in> fst ` set ps" for x
  proof -
    have "Min (fst ` set ps) \<le> x" "x \<le> Max (fst ` set ps)" using that by auto
    then show ?thesis using assms(2) by (simp add: rangeX_def)
  qed
  have fy: "y = Min (snd ` set ps)" if "y \<in> snd ` set ps" for y
  proof -
    have "Min (snd ` set ps) \<le> y" "y \<le> Max (snd ` set ps)" using that by auto
    then show ?thesis using assms(3) by (simp add: rangeY_def)
  qed
  have rx: "frangeX ps = Fin 0" using assms(2) by (simp add: frange_alt)
  have ry: "frangeY ps = Fin 0" using assms(3) by (simp add: frange_alt)
  have dv: "fdivisor ps = Fin 0" by (simp add: fdivisor_def rx ry)
  have z: "(case p of (x, y) \<Rightarrow>
          (coord64 x (Min (fst ` set ps)) (Fin 0) (Fin 0),
           coord64 y (Min (snd ` set ps)) (Fin 0) (Fin 0))) = (NaN, NaN)"
    if "p \<in> set ps" for p
    using fx[of "fst p"] fy[of "snd p"] that coord64_nan
    by (simp add: case_prod_unfold)
  show ?thesis
    unfolding normalize_fin[OF assms(1)] rx ry dv
    using z by (simp cong: map_cong)
qed

lemma rval_of_round:
  assumes "round64 x = Fin y"
  shows "rval x = y" "\<bar>y\<bar> < huge"
  using assms unfolding round64_def by (auto split: if_splits)

lemma is_f64_half_one: "is_f64 (1 / 2)"
  unfolding is_f64_def by (rule exI[of _ 1], rule exI[of _ "- 1"]) simp

lemma is_f64_one: "is_f64 1"
  unfolding is_f64_def by (rule exI[of _ 1], rule exI[of _ 0]) simp

lemma mul64_half:
  assumes "is_f64 R" "2 powi (- 1021) \<le> R"
  shows "mul64 (Fin (1 / 2)) (Fin R) = Fin (R / 2)"
proof -
  have "0 < R" using assms(2) by (rule less_le_trans[rotated]) simp
  then have "is_f64 (R / 2)" using assms by (intro is_f64_half) simp_all
  then have "round64 (R / 2) = Fin (R / 2)" by (rule round64_repr)
  then show ?thesis by (simp add: mul64_def)
qed

lemma coord64_dominant:
  assumes R: "round64 (mx - mn) = Fin R" and big: "2 powi (- 1021) \<le> R"
    and x: "mn \<le> x" "x \<le> mx"
  shows "in_unit (coord64 x mn (Fin R) (Fin R))"
proof -
  have fR: "is_f64 R" by (rule round64_is_f64[OF R])
  have pos: "0 < R" using big by (rule less_le_trans[rotated]) simp
  have fh: "is_f64 (R / 2)" using fR big pos by (intro is_f64_half) simp_all
  have fmh: "is_f64 (- (R / 2))" using fh by (rule is_f64_neg)
  note rv = rval_of_round[OF R]
  define d where "d = rval (x - mn)"
  have d0: "0 \<le> d" unfolding d_def using x(1) by (intro rval_nonneg) simp
  have dR: "d \<le> R" unfolding d_def using rval_mono[of "x - mn" "mx - mn"] x(2) rv(1) by simp
  have "\<bar>d\<bar> < huge" using d0 dR rv(2) by linarith
  then have rd: "round64 (x - mn) = Fin d" unfolding d_def by (rule round64_eq)
  define s where "s = rval (d - R / 2)"
  have bs: "round64 (d - R / 2) = Fin s \<and> - (R / 2) \<le> s \<and> s \<le> R / 2"
    unfolding s_def using d0 dR by (intro round64_between[OF fmh fh]) simp_all
  define q where "q = rval (s / R)"
  have "- (1 / 2) \<le> s / R" "s / R \<le> 1 / 2"
    using bs pos by (simp_all add: field_simps)
  then have bq: "round64 (s / R) = Fin q \<and> - (1 / 2) \<le> q \<and> q \<le> 1 / 2"
    unfolding q_def by (intro round64_between is_f64_neg is_f64_half_one)
  define v where "v = rval (q + 1 / 2)"
  have bv: "round64 (q + 1 / 2) = Fin v \<and> 0 \<le> v \<and> v \<le> 1"
    unfolding v_def using bq by (intro round64_between is_f64_0 is_f64_one) simp_all
  note m = mul64_half[OF fR big]
  have "coord64 x mn (Fin R) (Fin R)
      = add64 (div64 (sub64 (Fin d) (Fin (R / 2))) (Fin R)) (Fin (1 / 2))"
    by (simp add: coord64_def rd m)
  also have "\<dots> = add64 (div64 (Fin s) (Fin R)) (Fin (1 / 2))"
    by (simp only: sub64_fin bs[THEN conjunct1])
  also have "\<dots> = add64 (Fin q) (Fin (1 / 2))"
    using pos bq[THEN conjunct1] by (simp add: div64_def)
  also have "\<dots> = Fin v"
    using bv[THEN conjunct1] by (simp add: add64_def)
  finally show ?thesis using bv by simp
qed

lemma coord64_min:
  assumes R: "round64 (mx - mn) = Fin R" and big: "2 powi (- 1021) \<le> R"
  shows "coord64 mn mn (Fin R) (Fin R) = Fin 0"
proof -
  have fR: "is_f64 R" by (rule round64_is_f64[OF R])
  have pos: "0 < R" using big by (rule less_le_trans[rotated]) simp
  have fh: "is_f64 (R / 2)" using fR big pos by (intro is_f64_half) simp_all
  have a: "round64 (- (R / 2)) = Fin (- (R / 2))" by (intro round64_repr is_f64_neg fh)
  have b: "round64 (- (1 / 2)) = Fin (- (1 / 2))" by (intro round64_repr is_f64_neg is_f64_half_one)
  note m = mul64_half[OF fR big]
  have "coord64 mn mn (Fin R) (Fin R)
      = add64 (div64 (sub64 (Fin 0) (Fin (R / 2))) (Fin R)) (Fin (1 / 2))"
    by (simp add: coord64_def m)
  also have "\<dots> = add64 (div64 (Fin (- (R / 2))) (Fin R)) (Fin (1 / 2))"
    using a by (simp add: sub64_fin)
  also have "\<dots> = add64 (Fin (- (1 / 2))) (Fin (1 / 2))"
    using pos b by (simp add: div64_def)
  also have "\<dots> = Fin 0"
    by (simp add: add64_def)
  finally show ?thesis .
qed

lemma coord64_max:
  assumes R: "round64 (mx - mn) = Fin R" and big: "2 powi (- 1021) \<le> R"
  shows "coord64 mx mn (Fin R) (Fin R) = Fin 1"
proof -
  have fR: "is_f64 R" by (rule round64_is_f64[OF R])
  have pos: "0 < R" using big by (rule less_le_trans[rotated]) simp
  have fh: "is_f64 (R / 2)" using fR big pos by (intro is_f64_half) simp_all
  have a: "round64 (R / 2) = Fin (R / 2)" by (intro round64_repr fh)
  have b: "round64 (1 / 2) = Fin (1 / 2)" by (intro round64_repr is_f64_half_one)
  have c: "round64 1 = Fin 1" by (intro round64_repr is_f64_one)
  note m = mul64_half[OF fR big]
  have "coord64 mx mn (Fin R) (Fin R)
      = add64 (div64 (sub64 (Fin R) (Fin (R / 2))) (Fin R)) (Fin (1 / 2))"
    by (simp add: coord64_def m R)
  also have "\<dots> = add64 (div64 (Fin (R / 2)) (Fin R)) (Fin (1 / 2))"
    using a by (simp add: sub64_fin)
  also have "\<dots> = add64 (Fin (1 / 2)) (Fin (1 / 2))"
    using pos b by (simp add: div64_def)
  also have "\<dots> = Fin 1"
    using c by (simp add: add64_def)
  finally show ?thesis .
qed

lemma fills_unit_axis:
  assumes ne: "ps \<noteq> []"
    and R: "round64 (Max (f ` set ps) - Min (f ` set ps)) = Fin R" and big: "2 powi (- 1021) \<le> R"
  shows "fills_unit (map (\<lambda>p. coord64 (f p) (Min (f ` set ps)) (Fin R) (Fin R)) ps)"
proof -
  have fin: "finite (f ` set ps)" and nem: "f ` set ps \<noteq> {}" using ne by simp_all
  obtain a where a: "a \<in> set ps" "f a = Min (f ` set ps)"
    using Min_in[OF fin nem] by auto
  obtain b where b: "b \<in> set ps" "f b = Max (f ` set ps)"
    using Max_in[OF fin nem] by auto
  have "coord64 (f a) (Min (f ` set ps)) (Fin R) (Fin R) = Fin 0"
    unfolding a(2) by (rule coord64_min[OF R big])
  then have z: "Fin 0 \<in> set (map (\<lambda>p. coord64 (f p) (Min (f ` set ps)) (Fin R) (Fin R)) ps)"
    using a(1) by (auto simp: image_iff intro!: bexI[of _ a])
  have "coord64 (f b) (Min (f ` set ps)) (Fin R) (Fin R) = Fin 1"
    unfolding b(2) by (rule coord64_max[OF R big])
  then have o: "Fin 1 \<in> set (map (\<lambda>p. coord64 (f p) (Min (f ` set ps)) (Fin R) (Fin R)) ps)"
    using b(1) by (auto simp: image_iff intro!: bexI[of _ b])
  have "in_unit (coord64 (f p) (Min (f ` set ps)) (Fin R) (Fin R))" if "p \<in> set ps" for p
    using that fin by (intro coord64_dominant[OF R big]) simp_all
  then have u: "list_all in_unit (map (\<lambda>p. coord64 (f p) (Min (f ` set ps)) (Fin R) (Fin R)) ps)"
    by (simp add: list_all_iff)
  show ?thesis unfolding fills_unit_def using z o u by simp
qed

lemma fdivisor_fin:
  assumes "frangeX ps = Fin rx" "frangeY ps = Fin ry"
  shows "fdivisor ps = Fin (max rx ry)"
  using assms by (simp add: fdivisor_def max_def)

lemma round64_1: "round64 1 = Fin 1" by (rule round64_exact[of _ 1 0]) simp_all

lemma round64_3: "round64 3 = Fin 3" by (rule round64_exact[of _ 3 0]) simp_all

lemma round64_half: "round64 (1 / 2) = Fin (1 / 2)" by (rule round64_exact[of _ 1 "- 1"]) simp_all

lemma round64_mhalf: "round64 (- (1 / 2)) = Fin (- (1 / 2))" by (rule round64_exact[of _ "- 1" "- 1"]) simp_all

lemma round64_3_2: "round64 (3 / 2) = Fin (3 / 2)" by (rule round64_exact[of _ 3 "- 1"]) simp_all

lemma round64_m3_2: "round64 (- (3 / 2)) = Fin (- (3 / 2))" by (rule round64_exact[of _ "- 3" "- 1"]) simp_all

lemma round64_e53: "round64 (1 / 2 ^ 53) = Fin (1 / 2 ^ 53)" by (rule round64_exact[of _ 1 "- 53"]) simp_all

lemma round64_3e53: "round64 (3 / 2 ^ 53) = Fin (3 / 2 ^ 53)" by (rule round64_exact[of _ 3 "- 53"]) simp_all

lemma round64_3e54: "round64 (3 / 2 ^ 54) = Fin (3 / 2 ^ 54)" by (rule round64_exact[of _ 3 "- 54"]) simp_all

lemma round64_e53_mhalf: "round64 (1 / 2 ^ 53 - 1 / 2) = Fin (1 / 2 ^ 53 - 1 / 2)"
  by (rule round64_exact[of _ "- (2 ^ 52 - 1)" "- 53"]) simp_all

lemma round64_tie_down: "round64 (3 / 2 ^ 53 - 3 / 2) = Fin (1 / 2 ^ 51 - 3 / 2)"
proof -
  have "round64 (3 / 2 ^ 53 - 3 / 2) = Fin (of_int (- 6755399441055742) * 2 powi (- 52))"
  proof (rule round64_eval[where k=0])
    show "\<bar>real_of_int (- 6755399441055742) * 2 powi (- 52)\<bar> < huge"
      by (rule small_fin) simp
  qed (simp_all add: rne_def)
  then show ?thesis by simp
qed

lemma round64_third: "round64 ((1 / 2 ^ 51 - 3 / 2) / 3) = Fin (3 / 2 ^ 54 - 1 / 2)"
proof -
  have "round64 ((1 / 2 ^ 51 - 3 / 2) / 3) = Fin (of_int (- 9007199254740989) * 2 powi (- 54))"
  proof (rule round64_eval[where k="- 2"])
    show "\<bar>real_of_int (- 9007199254740989) * 2 powi (- 54)\<bar> < huge"
      by (rule small_fin) simp
  qed (simp_all add: rne_def)
  then show ?thesis by simp
qed

lemma round64_least: "round64 (1 / 2 ^ 1074) = Fin (1 / 2 ^ 1074)"
  by (rule round64_exact[of _ 1 "- 1074"]) (simp_all add: power_int_minus field_simps)

lemma round64_half_least: "round64 (1 / 2 ^ 1075) = Fin 0"
proof -
  have "round64 (1 / 2 ^ 1075) = Fin (of_int 0 * 2 powi (- 1074))"
  proof (rule round64_eval[where k="- 1075"])
    show "\<bar>real_of_int 0 * 2 powi (- 1074)\<bar> < huge"
      by (rule small_fin) simp
  qed (simp_all add: rne_def power_int_minus field_simps)
  then show ?thesis by simp
qed

lemma round64_huge: "round64 (2 ^ 1024) = PInf"
proof -
  have a: "2 powi 1024 \<le> \<bar>(2::real) ^ 1024\<bar>" "\<bar>(2::real) ^ 1024\<bar> < 2 powi (1024 + 1)"
    by simp_all
  have e: "ulp_exp (2 ^ 1024) = 972" using ulp_exp_eq[OF a] by simp
  have "(2::real) ^ 1024 / 2 powi 972 = of_int (2 ^ 52)" by simp
  then have "rne (2 ^ 1024 / 2 powi 972) = 2 ^ 52" by (simp only: rne_of_int)
  then have "rval (2 ^ 1024) = huge" unfolding rval_def e huge_def by simp
  then show ?thesis by (simp add: round64_def huge_def)
qed

lemma round64_5e55: "round64 (5 / 2 ^ 55) = Fin (5 / 2 ^ 55)"
  by (rule round64_exact[of _ 5 "- 55"]) simp_all

lemma round64_5e56: "round64 (5 / 2 ^ 56) = Fin (5 / 2 ^ 56)"
  by (rule round64_exact[of _ 5 "- 56"]) simp_all

lemma round64_m5e56: "round64 (- (5 / 2 ^ 56)) = Fin (- (5 / 2 ^ 56))"
  by (rule round64_exact[of _ "- 5" "- 56"]) simp_all

lemma round64_below_half: "round64 (1 / 2 - 5 / 2 ^ 56) = Fin (1 / 2 - 1 / 2 ^ 54)"
proof -
  have "round64 (1 / 2 - 5 / 2 ^ 56) = Fin (of_int (2 ^ 53 - 1) * 2 powi (- 54))"
  proof (rule round64_eval[where k="- 2"])
    show "\<bar>real_of_int (2 ^ 53 - 1) * 2 powi (- 54)\<bar> < huge"
      by (rule small_fin) simp
  qed (simp_all add: rne_def)
  then show ?thesis by simp
qed

lemma round64_above_half: "round64 (1 / 2 + 5 / 2 ^ 56) = Fin (1 / 2 + 1 / 2 ^ 53)"
proof -
  have "round64 (1 / 2 + 5 / 2 ^ 56) = Fin (of_int (2 ^ 52 + 1) * 2 powi (- 53))"
  proof (rule round64_eval[where k="- 1"])
    show "\<bar>real_of_int (2 ^ 52 + 1) * 2 powi (- 53)\<bar> < huge"
      by (rule small_fin) simp
  qed (simp_all add: rne_def)
  then show ?thesis by simp
qed

lemma round64_2: "round64 2 = Fin 2" by (rule round64_exact[of _ 2 0]) simp_all

lemma round64_m1: "round64 (- 1) = Fin (- 1)" by (rule round64_exact[of _ "- 1" 0]) simp_all

lemma round64_quarter: "round64 (1 / 4) = Fin (1 / 4)" by (rule round64_exact[of _ 1 "- 2"]) simp_all

lemma round64_mquarter: "round64 (- (1 / 4)) = Fin (- (1 / 4))" by (rule round64_exact[of _ "- 1" "- 2"]) simp_all

lemma round64_3_4: "round64 (3 / 4) = Fin (3 / 4)" by (rule round64_exact[of _ 3 "- 2"]) simp_all

lemma tiny_le: "(2::real) powi (- 1021) \<le> 2"
  by (rule order_trans[where y=1]) (simp_all add: power_int_minus field_simps)


lemmas rounds = round64_1 round64_2 round64_3 round64_half round64_mhalf round64_3_2 round64_m3_2
  round64_m1 round64_quarter round64_mquarter round64_3_4
  round64_e53[simplified] round64_3e53[simplified] round64_3e54[simplified]
  round64_e53_mhalf[simplified] round64_tie_down[simplified] round64_third[simplified]
  round64_least[simplified] round64_half_least[simplified] round64_huge[simplified]
  round64_5e55[simplified] round64_5e56[simplified] round64_m5e56[simplified]
  round64_below_half[simplified] round64_above_half[simplified]

lemmas normalize_eval = normalize_points_def fin_points_def sub64_def mul64_def div64_def
  add64_def fsub_def Let_def rounds

section \<open>Invariance of normalize_points\<close>
























section \<open>The bucket array\<close>





text \<open>Whatever the input, a bucket array that was built holds finite points only.\<close>

lemma fin_buckets_init: "fin_buckets n (replicate (nat n) (replicate (nat n) None))"
  by (simp add: fin_buckets_def bucket_list_def)

lemma cell_index_is_fin: "cell_index n x = Inr i \<Longrightarrow> is_fin x"
  by (cases x) (simp_all add: cell_index_def split: if_splits)

lemma py_index_lt: "py_index n i = Inr k \<Longrightarrow> k < nat n"
  by (auto simp: py_index_def split: if_splits)

lemma fin_buckets_put:
  assumes "fin_buckets n X" "fin_pt p" "i < nat n" "j < nat n"
  shows "fin_buckets n (put X i j p)"
proof -
  have len: "length X = nat n" using assms(1) by (simp add: fin_buckets_def)
  have rows: "\<And>row. row \<in> set X \<Longrightarrow> length row = nat n \<and>
         (\<forall>b\<in>set row. \<forall>p\<in>set (bucket_list b). fin_pt p)"
    using assms(1) by (simp add: fin_buckets_def)
  have Xi: "X ! i \<in> set X" using len assms(3) by simp
  have Xij: "X ! i ! j \<in> set (X ! i)" using rows[OF Xi] assms(4) by simp
  let ?new = "case X ! i ! j of None \<Rightarrow> Some [p] | Some ps \<Rightarrow> Some (ps @ [p])"
  have new: "\<forall>q\<in>set (bucket_list ?new). fin_pt q"
    using rows[OF Xi] Xij assms(2)
    by (cases "X ! i ! j") (auto simp: bucket_list_def)
  have row': "length ((X ! i)[j := ?new]) = nat n \<and>
         (\<forall>b\<in>set ((X ! i)[j := ?new]). \<forall>p\<in>set (bucket_list b). fin_pt p)"
  proof (intro conjI ballI)
    show "length ((X ! i)[j := ?new]) = nat n" using rows[OF Xi] by simp
  next
    fix b q assume b: "b \<in> set ((X ! i)[j := ?new])" and q: "q \<in> set (bucket_list b)"
    from b have "b = ?new \<or> b \<in> set (X ! i)"
      using set_update_subset_insert[of "X ! i" j ?new] by auto
    then show "fin_pt q"
      using new rows[OF Xi] q by auto
  qed
  show ?thesis
    unfolding fin_buckets_def put_def
  proof (intro conjI ballI)
    show "length (X[i := (X ! i)[j := ?new]]) = nat n" using len by simp
  next
    fix row assume "row \<in> set (X[i := (X ! i)[j := ?new]])"
    then have r: "row = (X ! i)[j := ?new] \<or> row \<in> set X"
      using set_update_subset_insert[of X i "(X ! i)[j := ?new]"] by auto
    then show "length row = nat n" using row' rows by auto
    fix b q assume "b \<in> set row" "q \<in> set (bucket_list b)"
    then show "fin_pt q" using r row' rows by auto
  qed
qed

lemma bucket_step_fin_buckets:
  assumes "bucket_step data n idx X = Inr X'" "fin_buckets n X"
  shows "fin_buckets n X'"
proof -
  obtain x y where xy: "data ! idx = (x, y)" by (cases "data ! idx")
  from assms(1) obtain i j i' j' where
    c: "cell_index n x = Inr i" "cell_index n y = Inr j" "py_index n i = Inr i'" "py_index n j = Inr j'"
    and X': "X' = put X i' j' (x, y)"
    unfolding bucket_step_def xy
    by (auto split: if_splits sum.splits)
  show ?thesis
    unfolding X'
    using assms(2) cell_index_is_fin[OF c(1)] cell_index_is_fin[OF c(2)]
      py_index_lt[OF c(3)] py_index_lt[OF c(4)]
    by (intro fin_buckets_put) (simp_all add: fin_pt_def)
qed

lemma fold_err_invariant:
  assumes "\<And>x s s'. P s \<Longrightarrow> f x s = Inr s' \<Longrightarrow> P s'"
  shows "P s \<Longrightarrow> fold_err f xs s = Inr s' \<Longrightarrow> P s'"
proof (induction xs arbitrary: s)
  case Nil
  then show ?case by simp
next
  case (Cons x xs)
  then show ?case using assms by (auto split: sum.splits)
qed

lemma buckets_of_fin_buckets:
  assumes "buckets_of points data n = Inr X"
  shows "fin_buckets n X"
proof -
  from assms have f: "fold_err (bucket_step data n) [0..<length points]
             (replicate (nat n) (replicate (nat n) None)) = Inr X"
    by (simp add: buckets_of_def split: if_splits)
  show ?thesis
    by (rule fold_err_invariant[where P="fin_buckets n", OF _ fin_buckets_init f])
       (rule bucket_step_fin_buckets)
qed

section \<open>The grid\<close>

lemma kernel_fin:
  "s \<noteq> 0 \<Longrightarrow> kernel (Fin s) x0 y0 (Fin x) (Fin y) = Fin (gauss s x0 y0 (x, y))"
  by (simp add: kernel_def gauss_def fsub_def power2_eq_square)

lemma gauss_mono:
  assumes "0 < s1" "s1 < s2"
  shows "gauss s1 x0 y0 p \<le> gauss s2 x0 y0 p"
proof -
  have a: "(x0 - fst p)\<^sup>2 / (2 * s2) \<le> (x0 - fst p)\<^sup>2 / (2 * s1)"
    using assms by (intro divide_left_mono) (auto simp: mult_pos_pos)
  have b: "(y0 - snd p)\<^sup>2 / (2 * s2) \<le> (y0 - snd p)\<^sup>2 / (2 * s1)"
    using assms by (intro divide_left_mono) (auto simp: mult_pos_pos)
  show ?thesis unfolding gauss_def using a b by simp
qed

lemma map_err_nth:
  "map_err f xs = Inr ys \<Longrightarrow> k < length xs \<Longrightarrow> f (xs ! k) = Inr (ys ! k)"
proof (induction xs arbitrary: ys k)
  case Nil
  then show ?case by simp
next
  case (Cons x xs)
  then show ?case by (cases k) (auto split: sum.splits)
qed

lemma py_range_nth: "0 \<le> i \<Longrightarrow> i < n \<Longrightarrow> py_range 0 n ! nat i = i"
  unfolding py_range_def by (simp add: nth_upto)

lemma length_py_range: "length (py_range 0 n) = nat n"
  unfolding py_range_def by simp

lemma fold_invariant:
  assumes "\<And>x a. x \<in> set xs \<Longrightarrow> Q a \<Longrightarrow> Q (F x a)" "Q a"
  shows "Q (fold F xs a)"
  using assms by (induction xs arbitrary: a) simp_all

lemma fold_id:
  assumes "\<And>x a. x \<in> set xs \<Longrightarrow> F x a = a"
  shows "fold F xs a = a"
  using assms by (induction xs arbitrary: a) simp_all

lemma kernel_nonneg:
  assumes "s \<noteq> 0" "fin_pt p" "nonneg_fl a"
  shows "nonneg_fl (fadd a (kernel (Fin s) x0 y0 (fst p) (snd p)))"
proof -
  obtain x y where p: "p = (Fin x, Fin y)"
    using assms(2) by (cases p; cases "fst p"; cases "snd p") (auto simp: fin_pt_def)
  obtain v where a: "a = Fin v" "0 \<le> v"
    using assms(3) by (cases a) (auto simp: nonneg_fl_def)
  have "0 \<le> gauss s x0 y0 (x, y)" by (simp add: gauss_def)
  then show ?thesis
    unfolding p a fst_conv snd_conv kernel_fin[OF assms(1)] using a(2) by (simp add: nonneg_fl_def)
qed

lemma grid_cell_nonneg:
  assumes "grid_cell X (Fin s) n m i0 j0 = Inr z" "s \<noteq> 0" "fin_buckets n X"
  shows "nonneg_fl z"
proof -
  let ?is = "py_range (max 0 (i0 - m)) (min (i0 + m) n)"
  let ?js = "py_range (max 0 (j0 - m)) (min (j0 + m) n)"
  from assms(1) obtain x0 y0 where
    z: "z = fold (\<lambda>i. fold (\<lambda>j acc. case X ! nat i ! nat j of None \<Rightarrow> acc
        | Some l \<Rightarrow> fold (\<lambda>(x, y) a. fadd a (kernel (Fin s) x0 y0 x y)) l acc) ?js) ?is (Fin 0)"
    unfolding grid_cell_def by (auto split: sum.splits)
  have cellstep: "nonneg_fl (case X ! nat i ! nat j of None \<Rightarrow> a
        | Some l \<Rightarrow> fold (\<lambda>(x, y) a. fadd a (kernel (Fin s) x0 y0 x y)) l a)"
    if "i \<in> set ?is" "j \<in> set ?js" "nonneg_fl a" for i j a
  proof (cases "X ! nat i ! nat j")
    case None
    then show ?thesis using that(3) by simp
  next
    case (Some l)
    have i: "nat i < nat n" and j: "nat j < nat n"
      using that(1,2) by (auto simp: set_py_range)
    have len: "length X = nat n" using assms(3) by (simp add: fin_buckets_def)
    then have Xi: "X ! nat i \<in> set X" using i by simp
    then have "length (X ! nat i) = nat n" using assms(3) by (simp add: fin_buckets_def)
    then have "X ! nat i ! nat j \<in> set (X ! nat i)" using j by simp
    then have "\<forall>p\<in>set (bucket_list (X ! nat i ! nat j)). fin_pt p"
      using assms(3) Xi by (simp add: fin_buckets_def)
    then have fin: "\<And>p. p \<in> set l \<Longrightarrow> fin_pt p" using Some by (simp add: bucket_list_def)
    have "nonneg_fl (fold (\<lambda>(x, y) a. fadd a (kernel (Fin s) x0 y0 x y)) l a)"
    proof (rule fold_invariant[where Q=nonneg_fl, OF _ that(3)])
      fix p b assume "p \<in> set l" "nonneg_fl b"
      then show "nonneg_fl ((case p of (x, y) \<Rightarrow> \<lambda>a. fadd a (kernel (Fin s) x0 y0 x y)) b)"
        using kernel_nonneg[OF assms(2) fin, of p b x0 y0] by (simp add: case_prod_unfold)
    qed
    then show ?thesis using Some by simp
  qed
  have inner: "nonneg_fl (fold (\<lambda>j acc. case X ! nat i ! nat j of None \<Rightarrow> acc
        | Some l \<Rightarrow> fold (\<lambda>(x, y) a. fadd a (kernel (Fin s) x0 y0 x y)) l acc) ?js a)"
    if "i \<in> set ?is" "nonneg_fl a" for i a
    by (rule fold_invariant[where Q=nonneg_fl, OF _ that(2)]) (rule cellstep[OF that(1)])
  have z0: "nonneg_fl (Fin 0)" by (simp add: nonneg_fl_def)
  show ?thesis
    unfolding z
    by (rule fold_invariant[where Q=nonneg_fl, OF _ z0]) (rule inner)
qed

lemma grid_cell_empty:
  assumes "grid_cell X sigma_sq n m i0 j0 = Inr z"
    "\<forall>i\<in>set (py_range (max 0 (i0 - m)) (min (i0 + m) n)).
       \<forall>j\<in>set (py_range (max 0 (j0 - m)) (min (j0 + m) n)).
         bucket_list (X ! nat i ! nat j) = []"
  shows "z = Fin 0"
proof -
  let ?is = "py_range (max 0 (i0 - m)) (min (i0 + m) n)"
  let ?js = "py_range (max 0 (j0 - m)) (min (j0 + m) n)"
  from assms(1) obtain x0 y0 where
    z: "z = fold (\<lambda>i. fold (\<lambda>j acc. case X ! nat i ! nat j of None \<Rightarrow> acc
        | Some l \<Rightarrow> fold (\<lambda>(x, y) a. fadd a (kernel sigma_sq x0 y0 x y)) l acc) ?js) ?is (Fin 0)"
    unfolding grid_cell_def by (auto split: sum.splits)
  have cell: "(case X ! nat i ! nat j of None \<Rightarrow> a
        | Some l \<Rightarrow> fold (\<lambda>(x, y) a. fadd a (kernel sigma_sq x0 y0 x y)) l a) = a"
    if "i \<in> set ?is" "j \<in> set ?js" for i j a
  proof -
    have "bucket_list (X ! nat i ! nat j) = []" using assms(2) that by blast
    then show ?thesis by (cases "X ! nat i ! nat j") (simp_all add: bucket_list_def)
  qed
  have inner: "fold (\<lambda>j acc. case X ! nat i ! nat j of None \<Rightarrow> acc
        | Some l \<Rightarrow> fold (\<lambda>(x, y) a. fadd a (kernel sigma_sq x0 y0 x y)) l acc) ?js a = a"
    if "i \<in> set ?is" for i a
    by (rule fold_id) (rule cell[OF that])
  show ?thesis unfolding z by (rule fold_id) (rule inner)
qed

lemma heatmap_grid_cell:
  assumes "heatmap_grid points data sigma_sq n m = Inr grid" "0 \<le> i0" "i0 < n" "0 \<le> j0" "j0 < n"
  shows "\<exists>X. buckets_of points data n = Inr X
           \<and> grid_cell X sigma_sq n m i0 j0 = Inr (grid ! nat i0 ! nat j0)"
proof -
  from assms(1) obtain X where X: "buckets_of points data n = Inr X"
    and g: "map_err (\<lambda>i0. map_err (\<lambda>j0. grid_cell X sigma_sq n m i0 j0) (py_range 0 n))
              (py_range 0 n) = Inr grid"
    unfolding heatmap_grid_def by (auto split: sum.splits)
  have i: "nat i0 < length (py_range 0 n)" and j: "nat j0 < length (py_range 0 n)"
    using assms(2-5) by (simp_all add: length_py_range)
  have "map_err (\<lambda>j0. grid_cell X sigma_sq n m i0 j0) (py_range 0 n) = Inr (grid ! nat i0)"
    using map_err_nth[OF g i] py_range_nth[OF assms(2,3)] by simp
  from map_err_nth[OF this j] have "grid_cell X sigma_sq n m i0 j0 = Inr (grid ! nat i0 ! nat j0)"
    using py_range_nth[OF assms(4,5)] by simp
  then show ?thesis using X by blast
qed

lemma corner_point_buckets:
  "buckets_of [(Fin 1, Fin 1)] [(Fin 1, Fin 1)] 2 = Inr [[None, None], [None, Some [(Fin 1, Fin 1)]]]"
  by (simp add: buckets_of_def bucket_step_def put_def cell_index_def py_index_def numeral_2_eq_2)

lemma corner_point_grid:
  "heatmap_grid [(Fin 1, Fin 1)] [(Fin 1, Fin 1)] (Fin 1) 2 1 = Inr [[Fin 0, Fin 0], [Fin 0, Fin 1]]"
  unfolding heatmap_grid_def corner_point_buckets
  by (simp add: py_range_unfold grid_cell_def py_truediv_def kernel_def fsub_def)

section \<open>The all-zero grid in heatmap_barplot\<close>

lemma fold_fmax_zero: "set as \<subseteq> {Fin 0} \<Longrightarrow> fold fmax as (Fin 0) = Fin 0"
  by (induction as) auto

lemma np_max_zero: "as \<noteq> [] \<Longrightarrow> set as \<subseteq> {Fin 0} \<Longrightarrow> np_max as = Inr (Fin 0)"
  by (cases as) (auto simp: fold_fmax_zero)

lemma concat_zero:
  "0 < n \<Longrightarrow> 0 < m \<Longrightarrow> concat (replicate n (replicate m (a::fl))) \<noteq> []"
  "set (concat (replicate n (replicate m a))) \<subseteq> {a}"
  by (cases n; cases m; auto)+

lemma bar_step_zero:
  assumes "2 \<le> n" "2 \<le> m" "0 \<le> i" "i < int n" "0 \<le> j" "j < int m"
  shows "bar_step (replicate n (replicate m (Fin 0))) h width bar_width num_colors z_max
           (int n) (int m) i j bmList = Inr bmList"
  using assms by (simp add: bar_step_def py_truediv_def)

section \<open>Claims\<close>

text \<open>
  C1. The claim: heatmap_grid is a pure function of its arguments \<open>data\<close>, \<open>sigma_sq\<close>,
  \<open>n\<close> and \<open>m\<close>, whatever the surrounding program state. The code reads the module-level
  variable \<^verbatim>\<open>points\<close> (line 40): with the same four arguments, the result is an all-zero
  grid when \<^verbatim>\<open>points\<close> is empty, the expected grid when it has one row, and IndexError
  when it has two.
\<close>

theorem heatmap_grid_reads_global:
  "heatmap_grid [] [(Fin 0, Fin 0)] (Fin 1) 2 1 = Inr [[Fin 0, Fin 0], [Fin 0, Fin 0]]
   \<and> heatmap_grid [(Fin 5, Fin 7)] [(Fin 0, Fin 0)] (Fin 1) 2 1 =
       Inr [[Fin 1, Fin (exp (- (1 / 2)))], [Fin (exp (- (1 / 2))), Fin (exp (- 1))]]
   \<and> heatmap_grid [(Fin 5, Fin 7), (Fin 5, Fin 7)] [(Fin 0, Fin 0)] (Fin 1) 2 1 = Inl IndexError"
  by (simp add: grid_eval)

text \<open>
  C2. The claim: on an input whose ranges are both zero, normalize_points fails with a
  DegenerateInputError and never returns NaN. The code has no such check: on the single
  point \<open>(1, 1)\<close> it returns \<open>(NaN, NaN)\<close>.
\<close>

theorem single_point_normalizes_to_nan:
  "normalize_points (fin_points [(1, 1)]) = Inr [(NaN, NaN)]"
  by (simp add: normalize_eval)

text \<open>
  C2, as the code behaves: on every non-empty input of finite points whose ranges are
  both zero, normalize_points raises nothing and returns \<open>(NaN, NaN)\<close> for each point.
\<close>

theorem normalize_degenerate:
  assumes "ps \<noteq> []" "rangeX ps = 0" "rangeY ps = 0"
  shows "normalize_points (fin_points ps) = Inr (map (\<lambda>p. (NaN, NaN)) ps)"
  using assms by (rule normalize_all_nan)

theorem normalize_degenerate_witness:
  "[(3, 5), (3, 5::real)] \<noteq> [] \<and> rangeX [(3, 5), (3, 5)] = 0 \<and> rangeY [(3, 5), (3, 5)] = 0
   \<and> normalize_points (fin_points [(3, 5), (3, 5)]) = Inr [(NaN, NaN), (NaN, NaN)]"
  using normalize_degenerate[of "[(3, 5), (3, 5)]"] by (simp add: rangeX_def rangeY_def)

text \<open>
  C4. The claim: the output is \<open>((x - minX - 0.5 * rangeX) / R + 0.5,
  (y - minY - 0.5 * rangeY) / R + 0.5)\<close> with \<open>R\<close> the larger range, its bounding box
  is centred at \<open>(0.5, 0.5)\<close> and the coordinates of the dominant axis exactly fill
  \<open>[0, 1]\<close>. The code evaluates the formula in float64. On \<open>[(0, 0), (2^-1074, 0)]\<close>
  half the range underflows to 0 and the first coordinates are 0.5 and 1.5; on
  \<open>[(-2^1023, 0), (2^1023, 0)]\<close> the range overflows and they are NaN; on
  \<open>[(0, 0), (1, 5 * 2^-55)]\<close> the second coordinates are \<open>0.5 - 2^-54\<close> and
  \<open>0.5 + 2^-53\<close>, which are not centred at 0.5.
\<close>

theorem normalize_underflow_overflow:
  "normalize_points (fin_points [(0, 0), (1 / 2 ^ 1074, 0)])
     = Inr [(Fin (1 / 2), Fin (1 / 2)), (Fin (3 / 2), Fin (1 / 2))]
   \<and> normalize_points (fin_points [(- (2 ^ 1023), 0), (2 ^ 1023, 0)])
     = Inr [(NaN, Fin (1 / 2)), (NaN, Fin (1 / 2))]
   \<and> normalize_points (fin_points [(0, 0), (1, 5 / 2 ^ 55)])
     = Inr [(Fin 0, Fin (1 / 2 - 1 / 2 ^ 54)), (Fin 1, Fin (1 / 2 + 1 / 2 ^ 53))]"
  by (simp add: normalize_eval)

text \<open>
  C4, as the code behaves: for a non-empty input of finite points whose two float64
  ranges \<open>rx\<close> and \<open>ry\<close> are finite, the larger being at least \<open>2^-1021\<close> (so that half
  of it is a float64 number), normalize_points raises nothing and returns, in input
  order, the points whose coordinates are the formula \<open>(x - min - 0.5 * range) / R + 0.5\<close>
  evaluated in float64 with \<open>R\<close> the larger of \<open>rx\<close> and \<open>ry\<close>; on an axis whose range
  is the larger, every output coordinate is a number of \<open>[0, 1]\<close>, the minimum of the
  input is sent to 0 and the maximum to 1.
\<close>

theorem normalize_fills_unit:
  assumes "ps \<noteq> []" "frangeX ps = Fin rx" "frangeY ps = Fin ry" "2 powi (- 1021) \<le> max rx ry"
  shows "\<exists>out. normalize_points (fin_points ps) = Inr out
    \<and> out = map (\<lambda>(x, y). (coord64 x (Min (fst ` set ps)) (Fin rx) (Fin (max rx ry)),
                         coord64 y (Min (snd ` set ps)) (Fin ry) (Fin (max rx ry)))) ps
    \<and> (ry \<le> rx \<longrightarrow> fills_unit (map fst out)
          \<and> coord64 (Min (fst ` set ps)) (Min (fst ` set ps)) (Fin rx) (Fin (max rx ry)) = Fin 0
          \<and> coord64 (Max (fst ` set ps)) (Min (fst ` set ps)) (Fin rx) (Fin (max rx ry)) = Fin 1)
    \<and> (rx \<le> ry \<longrightarrow> fills_unit (map snd out)
          \<and> coord64 (Min (snd ` set ps)) (Min (snd ` set ps)) (Fin ry) (Fin (max rx ry)) = Fin 0
          \<and> coord64 (Max (snd ` set ps)) (Min (snd ` set ps)) (Fin ry) (Fin (max rx ry)) = Fin 1)"
proof -
  let ?out = "map (\<lambda>(x, y). (coord64 x (Min (fst ` set ps)) (Fin rx) (Fin (max rx ry)),
                         coord64 y (Min (snd ` set ps)) (Fin ry) (Fin (max rx ry)))) ps"
  have eq: "normalize_points (fin_points ps) = Inr ?out"
    unfolding normalize_fin[OF assms(1)] fdivisor_fin[OF assms(2,3)] assms(2,3) ..
  have fx: "fills_unit (map fst ?out)
          \<and> coord64 (Min (fst ` set ps)) (Min (fst ` set ps)) (Fin rx) (Fin (max rx ry)) = Fin 0
          \<and> coord64 (Max (fst ` set ps)) (Min (fst ` set ps)) (Fin rx) (Fin (max rx ry)) = Fin 1"
    if "ry \<le> rx"
  proof -
    have m: "max rx ry = rx" using that by simp
    have R: "round64 (Max (fst ` set ps) - Min (fst ` set ps)) = Fin rx"
      using assms(2) by (simp add: frangeX_def)
    have big: "2 powi (- 1021) \<le> rx" using assms(4) m by simp
    have "fills_unit (map (\<lambda>p. coord64 (fst p) (Min (fst ` set ps)) (Fin rx) (Fin rx)) ps)"
      by (rule fills_unit_axis[OF assms(1) R big])
    then have "fills_unit (map fst ?out)" unfolding m by (simp add: case_prod_unfold comp_def)
    then show ?thesis unfolding m using coord64_min[OF R big] coord64_max[OF R big] by simp
  qed
  have fy: "fills_unit (map snd ?out)
          \<and> coord64 (Min (snd ` set ps)) (Min (snd ` set ps)) (Fin ry) (Fin (max rx ry)) = Fin 0
          \<and> coord64 (Max (snd ` set ps)) (Min (snd ` set ps)) (Fin ry) (Fin (max rx ry)) = Fin 1"
    if "rx \<le> ry"
  proof -
    have m: "max rx ry = ry" using that by simp
    have R: "round64 (Max (snd ` set ps) - Min (snd ` set ps)) = Fin ry"
      using assms(3) by (simp add: frangeY_def)
    have big: "2 powi (- 1021) \<le> ry" using assms(4) m by simp
    have "fills_unit (map (\<lambda>p. coord64 (snd p) (Min (snd ` set ps)) (Fin ry) (Fin ry)) ps)"
      by (rule fills_unit_axis[OF assms(1) R big])
    then have "fills_unit (map snd ?out)" unfolding m by (simp add: case_prod_unfold comp_def)
    then show ?thesis unfolding m using coord64_min[OF R big] coord64_max[OF R big] by simp
  qed
  show ?thesis using eq fx fy by blast
qed

theorem normalize_fills_unit_witness:
  "frangeX [(0, 0), (2, 1)] = Fin 2 \<and> frangeY [(0, 0), (2, 1)] = Fin 1
   \<and> (2::real) powi (- 1021) \<le> max 2 1
   \<and> normalize_points (fin_points [(0, 0), (2, 1)]) = Inr [(Fin 0, Fin (1 / 4)), (Fin 1, Fin (3 / 4))]
   \<and> fills_unit [Fin 0, Fin 1]"
  using normalize_fills_unit[of "[(0, 0), (2, 1)]" 2 1] tiny_le
  by (simp add: frangeX_def frangeY_def coord64_def sub64_def mul64_def div64_def add64_def
      fsub_def rounds)




text \<open>
  C3. The claim: every point of \<open>data\<close> is put into its bucket, and the cell \<open>(i0, j0)\<close>
  of the returned grid is the sum of the Gaussian contributions of exactly the points
  whose bucket lies in the window of that cell. The first loop runs over
  \<^verbatim>\<open>len(points)\<close>, the module-level variable (line 40), not over the rows of \<open>data\<close>.
  With \<open>data = [(0, 0), (1, 1)]\<close>, \<open>n = 2\<close>, \<open>m = 1\<close>, \<open>sigma_sq = 1\<close>, in a module state
  where \<^verbatim>\<open>points\<close> has one row, the point \<open>(1, 1)\<close> reaches no bucket; its cell \<open>(1, 1)\<close>
  lies in the window of the grid cell \<open>(1, 1)\<close>, for which the code returns \<open>exp(-1)\<close>,
  the contribution of \<open>(0, 0)\<close> alone, where the sum of the claim is \<open>exp(-1) + 1\<close>.
\<close>

theorem heatmap_grid_drops_points:
  "buckets_of [(Fin 0, Fin 0)] (fin_points [(0, 0), (1, 1)]) 2 =
       Inr [[Some [(Fin 0, Fin 0)], None], [None, None]]
   \<and> heatmap_grid [(Fin 0, Fin 0)] (fin_points [(0, 0), (1, 1)]) (Fin 1) 2 1 =
       Inr [[Fin 1, Fin (exp (- (1 / 2)))], [Fin (exp (- (1 / 2))), Fin (exp (- 1))]]
   \<and> cell_of 2 (1, 1) = (1, 1) \<and> in_window 2 1 1 1 (cell_of 2 (1, 1))
   \<and> window_sum [(0, 0), (1, 1)] 1 2 1 1 1 = exp (- 1) + 1"
proof -
  have b: "buckets_of [(Fin 0, Fin 0)] (fin_points [(0, 0), (1, 1)]) 2 =
       Inr [[Some [(Fin 0, Fin 0)], None], [None, None]]"
    by (simp add: buckets_of_def bucket_step_def put_def cell_index_def py_index_def
        fin_points_def numeral_2_eq_2)
  have g: "heatmap_grid [(Fin 0, Fin 0)] (fin_points [(0, 0), (1, 1)]) (Fin 1) 2 1 =
       Inr [[Fin 1, Fin (exp (- (1 / 2)))], [Fin (exp (- (1 / 2))), Fin (exp (- 1))]]"
    by (simp add: grid_eval fin_points_def)
  have w: "cell_of 2 (1, 1) = (1, 1) \<and> in_window 2 1 1 1 (cell_of 2 (1, 1))
      \<and> window_sum [(0, 0), (1, 1)] 1 2 1 1 1 = exp (- 1) + 1"
    by (simp add: cell_of_def in_window_def window_sum_def gauss_def)
  show ?thesis using b g w by blast
qed

text \<open>
  C6. Whenever heatmap_grid returns a grid, with \<open>sigma_sq \<noteq> 0\<close>, every cell of the grid
  is a finite non-negative number, and a cell whose window holds no point (every entry
  of the bucket array in the window is without points) is exactly 0.
\<close>

theorem grid_nonneg:
  assumes "heatmap_grid points data (Fin s) n m = Inr grid" "s \<noteq> 0"
    "0 \<le> i0" "i0 < n" "0 \<le> j0" "j0 < n"
  shows "\<exists>X v. buckets_of points data n = Inr X \<and> grid ! nat i0 ! nat j0 = Fin v \<and> 0 \<le> v
    \<and> ((\<forall>i\<in>set (py_range (max 0 (i0 - m)) (min (i0 + m) n)).
          \<forall>j\<in>set (py_range (max 0 (j0 - m)) (min (j0 + m) n)).
            bucket_list (X ! nat i ! nat j) = [])
        \<longrightarrow> v = 0)"
proof -
  obtain X where X: "buckets_of points data n = Inr X"
    and c: "grid_cell X (Fin s) n m i0 j0 = Inr (grid ! nat i0 ! nat j0)"
    using heatmap_grid_cell[OF assms(1,3-6)] by blast
  have "nonneg_fl (grid ! nat i0 ! nat j0)"
    by (rule grid_cell_nonneg[OF c assms(2) buckets_of_fin_buckets[OF X]])
  then obtain v where v: "grid ! nat i0 ! nat j0 = Fin v" "0 \<le> v"
    by (cases "grid ! nat i0 ! nat j0") (auto simp: nonneg_fl_def)
  have "v = 0"
    if "\<forall>i\<in>set (py_range (max 0 (i0 - m)) (min (i0 + m) n)).
          \<forall>j\<in>set (py_range (max 0 (j0 - m)) (min (j0 + m) n)).
            bucket_list (X ! nat i ! nat j) = []"
    using grid_cell_empty[OF c that] v(1) by simp
  then show ?thesis using X v by blast
qed

theorem grid_nonneg_witness:
  "(\<exists>X v. buckets_of [(Fin 1, Fin 1)] [(Fin 1, Fin 1)] 2 = Inr X
       \<and> bucket_list (X ! 0 ! 0) = []
       \<and> [[Fin 0, Fin 0], [Fin 0, Fin 1]] ! 0 ! 0 = Fin v \<and> 0 \<le> v \<and> v = 0)
   \<and> (\<exists>X v. buckets_of [(Fin 1, Fin 1)] [(Fin 1, Fin 1)] 2 = Inr X
       \<and> [[Fin 0, Fin 0], [Fin 0, Fin 1]] ! 1 ! 1 = Fin v \<and> 0 \<le> v)"
  using grid_nonneg[OF corner_point_grid, of 0 0] grid_nonneg[OF corner_point_grid, of 1 1]
    corner_point_buckets
  by (auto simp: py_range_unfold bucket_list_def)

text \<open>
  C7. The claim: for the single point \<open>(0, 0)\<close> with \<open>n = 2\<close>, \<open>m = 1\<close>, \<open>sigma_sq = 1\<close> the
  returned grid has \<open>grid[0][0] = 1\<close> and \<open>grid[1][1] = exp(-1)\<close>. Because of the loop
  bound of line 40, the call with these arguments returns that grid only in a module
  state where \<^verbatim>\<open>points\<close> has one row: when \<^verbatim>\<open>points\<close> is empty the point is never
  bucketed and every cell of the returned grid is 0.
\<close>

theorem single_point_grid_needs_global:
  "heatmap_grid [] [(Fin 0, Fin 0)] (Fin 1) 2 1 = Inr [[Fin 0, Fin 0], [Fin 0, Fin 0]]
   \<and> heatmap_grid [(Fin 0, Fin 0)] [(Fin 0, Fin 0)] (Fin 1) 2 1 =
       Inr [[Fin 1, Fin (exp (- (1 / 2)))], [Fin (exp (- (1 / 2))), Fin (exp (- 1))]]"
  by (simp add: grid_eval)

text \<open>
  C8. On an all-zero grid with at least two rows and two columns, heatmap_barplot
  places no bar: every colour group stays empty, no cell passes the threshold, so the
  quotient by \<open>z_max = 0\<close> is never computed, and nothing is raised.
\<close>

theorem barplot_zero_grid:
  assumes "2 \<le> n" "2 \<le> m"
  shows "heatmap_barplot (replicate n (replicate m (Fin 0))) h width bar_scale num_colors
           logarithmic = Inr (replicate (nat num_colors) [])"
proof -
  let ?g = "replicate n (replicate m (Fin 0))"
  have mx: "np_max (concat ?g) = Inr (Fin 0)"
    using assms by (intro np_max_zero concat_zero) auto
  have m_eq: "(case ?g of [] \<Rightarrow> 0 | r # _ \<Rightarrow> int (length r)) = int m"
    using assms by (cases n) auto
  have dv: "py_fdiv (bar_scale * width) (max (int n) (int m))
              = Inr (bar_scale * width / real_of_int (max (int n) (int m)))"
    using assms by (simp add: py_fdiv_def)
  have inner: "fold_err (bar_step ?g h width bw num_colors (Fin 0) (int n) (int m) i)
                 (py_range 0 (int m)) s = Inr s"
    if "i \<in> set (py_range 0 (int n))" for i s bw
    using that assms by (intro fold_err_id bar_step_zero) (auto simp: set_py_range)
  have outer: "fold_err (\<lambda>i. fold_err (bar_step ?g h width bw num_colors (Fin 0) (int n) (int m) i)
                 (py_range 0 (int m))) (py_range 0 (int n)) s = Inr s" for s bw
    by (intro fold_err_id inner)
  show ?thesis
    using mx m_eq dv by (simp add: heatmap_barplot_def outer)
qed

theorem barplot_zero_grid_witness:
  "heatmap_barplot [[Fin 0, Fin 0], [Fin 0, Fin 0]] 4 10 (9 / 10) 10 False
     = Inr (replicate 10 [])
   \<and> heatmap_barplot [[Fin 0, Fin 0], [Fin 0, Fin 0]] 4 10 (9 / 10) 10 True
     = Inr (replicate 10 [])"
  using barplot_zero_grid[of 2 2 4 10 "9 / 10" 10 False]
    barplot_zero_grid[of 2 2 4 10 "9 / 10" 10 True]
  by (simp add: numeral_2_eq_2)

text \<open>
  C9. The contribution of a point to a cell centre is monotone in \<open>sigma_sq\<close>: for
  \<open>0 < s1 < s2\<close> the contribution under \<open>s2\<close> is at least the one under \<open>s1\<close>.
\<close>

theorem kernel_mono_sigma:
  assumes "0 < s1" "s1 < s2"
  shows "kernel (Fin s1) x0 y0 (Fin x) (Fin y) = Fin (gauss s1 x0 y0 (x, y))
       \<and> kernel (Fin s2) x0 y0 (Fin x) (Fin y) = Fin (gauss s2 x0 y0 (x, y))
       \<and> gauss s1 x0 y0 (x, y) \<le> gauss s2 x0 y0 (x, y)"
  using assms kernel_fin[of s1] kernel_fin[of s2] gauss_mono[OF assms] by simp

theorem kernel_mono_sigma_witness:
  "kernel (Fin 1) 1 1 (Fin 0) (Fin 0) = Fin (exp (- 1))
   \<and> kernel (Fin 2) 1 1 (Fin 0) (Fin 0) = Fin (exp (- (1 / 2)))
   \<and> gauss 1 1 1 (0, 0) \<le> gauss 2 1 1 (0, 0)"
  using kernel_mono_sigma[of 1 2 1 1 0 0] by (simp add: gauss_def)



end
